theory Spec2Isabelle
  imports Complex_Main "HOL-Library.Multiset"
begin

section \<open>Tag retention of docker-registry-ui\<close>

text \<open>
  The repository holds two variants of the purge task: \<^verbatim>\<open>src/registry/tasks.go\<close>, where a
  \<^verbatim>\<open>PurgeConfig\<close> carries one tag rule, and \<^verbatim>\<open>src/unnamed/part_000\<close>, where it carries a
  list of \<^verbatim>\<open>TagConfig\<close>. Both are embedded. Definitions of the first variant keep the
  source's names; those of the second carry the suffix \<open>_part000\<close>.

  The Go standard library and the registry client are outside the repository. They are
  parameters of the model, collected in the record \<open>extern\<close>: \<^verbatim>\<open>regexp.Compile\<close>,
  \<^verbatim>\<open>sort.Sort\<close>, \<^verbatim>\<open>client.Tags\<close>, \<^verbatim>\<open>client.TagInfo\<close> and the order in which \<^verbatim>\<open>range\<close>
  visits a Go map.
\<close>

subsection \<open>Time\<close>

text \<open>
  A \<^verbatim>\<open>time.Time\<close> is an instant, here in nanoseconds as an unbounded integer. A
  \<^verbatim>\<open>time.Duration\<close> is an \<^verbatim>\<open>int64\<close> of nanoseconds, and \<^verbatim>\<open>Time.Sub\<close> saturates at its
  bounds.
\<close>

definition minDuration :: int where
  "minDuration = - (2 ^ 63)"

definition maxDuration :: int where
  "maxDuration = 2 ^ 63 - 1"

definition time_Sub :: "int \<Rightarrow> int \<Rightarrow> int" where
  "time_Sub t u =
     (let d = t - u
      in if d < minDuration then minDuration
         else if maxDuration < d then maxDuration
         else d)"

text \<open>
  The age of a tag is computed in \<^verbatim>\<open>float64\<close>:
  \<^verbatim>\<open>delta := int(now.Sub(tag.created).Hours() / 24)\<close>, where \<^verbatim>\<open>Duration.Hours\<close> is
  \<^verbatim>\<open>
  hour := d / Hour
  nsec := d % Hour
  return float64(hour) + float64(nsec)/(60*60*1e9)
  \<close>
  A \<^verbatim>\<open>float64\<close> value is held as the rational number it stands for. Every conversion and
  every arithmetic operation yields the IEEE 754 binary64 number nearest to the exact
  result, ties going to the even significand; \<open>float64 x\<close> is that number for the exact
  result \<open>x\<close>. The spacing of the binary64 numbers around \<open>x\<close> is \<open>2 powi (e - 52)\<close>,
  where \<open>e\<close> is the exponent of \<open>x\<close>, and not less than \<open>- 1022\<close> (below that the
  numbers are subnormal and evenly spaced). Overflow to infinity is left out: no value of
  this computation reaches \<open>2 ^ 22\<close>. The computation is a division, an addition and a
  division, each rounded on its own; there is no product that a fused multiply-add could
  absorb.
\<close>

text \<open>\<open>ilog2 n\<close> is the position of the highest set bit of \<open>n\<close>, and 0 for \<open>n < 2\<close>.\<close>

function ilog2 :: "int \<Rightarrow> int" where
  "ilog2 n = (if n < 2 then 0 else 1 + ilog2 (n div 2))"
  by pat_completeness auto
termination
  by (relation "measure nat") auto

declare ilog2.simps [simp del]

definition roundHalfEven :: "rat \<Rightarrow> int" where
  "roundHalfEven x =
     (let f = \<lfloor>x\<rfloor>; r = x - of_int f
      in if r < 1 / 2 then f
         else if 1 / 2 < r then f + 1
         else if even f then f else f + 1)"

definition float64 :: "rat \<Rightarrow> rat" where
  "float64 x =
     (let e = max (ilog2 \<lfloor>\<bar>x\<bar> * 2 ^ 1074\<rfloor> - 1074) (- 1022);
          q = 2 powi (e - 52)
      in of_int (roundHalfEven (x / q)) * q)"

text \<open>Go's \<^verbatim>\<open>/\<close> and \<^verbatim>\<open>%\<close> on integers truncate towards zero.\<close>

definition quo :: "int \<Rightarrow> int \<Rightarrow> int" where
  "quo a b = (if a < 0 then - ((- a) div b) else a div b)"

definition rem :: "int \<Rightarrow> int \<Rightarrow> int" where
  "rem a b = a - b * quo a b"

definition Hour :: int where
  "Hour = 60 * 60 * 1000000000"

definition Hours :: "int \<Rightarrow> rat" where
  "Hours d =
     (let hour = quo d Hour;
          nsec = rem d Hour
      in float64 (float64 (of_int hour)
           + float64 (float64 (of_int nsec) / (60 * 60 * 1000000000))))"

text \<open>The conversion \<^verbatim>\<open>int(f)\<close> drops the fraction.\<close>

definition int_of_float64 :: "rat \<Rightarrow> int" where
  "int_of_float64 x = (if x < 0 then - \<lfloor>- x\<rfloor> else \<lfloor>x\<rfloor>)"

text \<open>\<^verbatim>\<open>delta := int(now.Sub(tag.created).Hours() / 24)\<close>\<close>

definition deltaDays :: "int \<Rightarrow> int \<Rightarrow> int" where
  "deltaDays now c = int_of_float64 (float64 (Hours (time_Sub now c) / 24))"

subsection \<open>Tags and their order\<close>

record tagData =
  name :: string
  created :: int

text \<open>\<^verbatim>\<open>timeSlice.Less(i, j)\<close> is \<^verbatim>\<open>p[i].created.After(p[j].created)\<close>.\<close>

definition Less :: "tagData \<Rightarrow> tagData \<Rightarrow> bool" where
  "Less a b = (created b < created a)"

text \<open>
  What \<^verbatim>\<open>sort.Sort\<close> promises of its result for one input: a rearrangement of the input
  in which no later element is \<open>Less\<close> than an earlier one. The sort is not stable, so
  the order among tags of equal creation time is left open.
\<close>

definition sortsNewestFirst :: "(tagData list \<Rightarrow> tagData list) \<Rightarrow> tagData list \<Rightarrow> bool" where
  "sortsNewestFirst srt ts =
     (mset (srt ts) = mset ts \<and> sorted_wrt (\<lambda>a b. \<not> Less b a) (srt ts))"

text \<open>
  An insertion sort, which is what \<^verbatim>\<open>sort.Sort\<close> comes down to on a handful of
  elements; it instantiates the parameter at concrete inputs.
\<close>

fun bubbleLeft :: "tagData \<Rightarrow> tagData list \<Rightarrow> tagData list" where
  "bubbleLeft t [] = [t]"
| "bubbleLeft t (u # us) = (if Less t u then u # bubbleLeft t us else t # u # us)"

text \<open>
  \<open>bubbleLeft t\<close> takes the sorted prefix from its right end (the list reversed) and
  swaps \<open>t\<close> leftwards while it is \<open>Less\<close> than its left neighbour.
\<close>

fun insertionSortFrom :: "tagData list \<Rightarrow> tagData list \<Rightarrow> tagData list" where
  "insertionSortFrom pre [] = pre"
| "insertionSortFrom pre (t # ts) = insertionSortFrom (rev (bubbleLeft t (rev pre))) ts"

definition insertionSort :: "tagData list \<Rightarrow> tagData list" where
  "insertionSort ts = insertionSortFrom [] ts"

subsection \<open>The retention partition\<close>

text \<open>
  The loop "Filter out tags by retention days" (tasks.go 148--155, part\_000 171--178),
  with the two slices it appends to as accumulator.
\<close>

fun filterByDays ::
  "int \<Rightarrow> int \<Rightarrow> tagData list \<Rightarrow> string list \<times> string list \<Rightarrow> string list \<times> string list" where
  "filterByDays now keepDays [] (purgeTags, keepTags) = (purgeTags, keepTags)"
| "filterByDays now keepDays (tag # rest) (purgeTags, keepTags) =
     (if keepDays < deltaDays now (created tag)
      then filterByDays now keepDays rest (purgeTags @ [name tag], keepTags)
      else filterByDays now keepDays rest (purgeTags, keepTags @ [name tag]))"

text \<open>
  "Keep minimal count of tags no matter how old they are" (tasks.go 158--166, part\_000
  181--189). \<open>n\<close> is the length of the group. The result is the pair of the purge list
  and the keep list.
\<close>

definition keepMinimalCount ::
  "nat \<Rightarrow> int \<Rightarrow> string list \<times> string list \<Rightarrow> string list \<times> string list" where
  "keepMinimalCount n keepCount pk =
     (case pk of (purgeTags, keepTags) \<Rightarrow>
        if int n - int (length purgeTags) < keepCount
        then if keepCount < int (length purgeTags)
             then (drop (nat keepCount) purgeTags, keepTags @ take (nat keepCount) purgeTags)
             else ([], keepTags @ purgeTags)
        else (purgeTags, keepTags))"

text \<open>
  The result of the partition of one group: the two lists of names, and the sorted slice
  (the one stored back into \<^verbatim>\<open>tagsFromRepo\<close> and printed by the "All" log line).
\<close>

record decision =
  keep :: "string list"
  purge :: "string list"
  allSorted :: "tagData list"

text \<open>
  tasks.go 139--166: the group is sorted, the sorted slice replaces \<^verbatim>\<open>tagsFromRepo\<close>, and
  both loops run over it.
\<close>

definition partitionTags ::
  "(tagData list \<Rightarrow> tagData list) \<Rightarrow> int \<Rightarrow> int \<Rightarrow> int \<Rightarrow> tagData list \<Rightarrow> decision" where
  "partitionTags srt now keepDays keepCount tagsFromRepo =
     (let sortedTags = srt tagsFromRepo;
          pk = keepMinimalCount (length sortedTags) keepCount
                 (filterByDays now keepDays sortedTags ([], []))
      in \<lparr>keep = snd pk, purge = fst pk, allSorted = sortedTags\<rparr>)"

text \<open>
  part\_000 159--189: the sorted copy is stored back into the map
  (\<^verbatim>\<open>tagsFromRepo[tagConfig] = sortedTags\<close>), but both loops run over \<^verbatim>\<open>tags\<close>, the slice
  the \<^verbatim>\<open>range\<close> clause read before the sort, which is in the order the tags were appended.
\<close>

definition partitionTags_part000 ::
  "(tagData list \<Rightarrow> tagData list) \<Rightarrow> int \<Rightarrow> int \<Rightarrow> int \<Rightarrow> tagData list \<Rightarrow> decision" where
  "partitionTags_part000 srt now keepDays keepCount tags =
     (let sortedTags = srt tags;
          pk = keepMinimalCount (length tags) keepCount
                 (filterByDays now keepDays tags ([], []))
      in \<lparr>keep = snd pk, purge = fst pk, allSorted = sortedTags\<rparr>)"

subsection \<open>Configuration, collaborators and what a scan leaves behind\<close>

text \<open>tasks.go 14--19.\<close>

record PurgeConfig =
  RepoRegex :: string
  TagsRegex :: string
  TagsKeepDays :: int
  TagsKeepCount :: int

text \<open>part\_000 13--23.\<close>

record TagConfig =
  TagsRegex_part000 :: string
  TagsKeepDays_part000 :: int
  TagsKeepCount_part000 :: int

record PurgeConfig_part000 =
  RepoRegex_part000 :: string
  Tags_part000 :: "TagConfig list"

text \<open>
  The collaborators.
  \<^item> \<open>regexp_Compile p\<close> is \<open>None\<close> when \<^verbatim>\<open>regexp.Compile(p)\<close> returns an error, and
    otherwise \<open>Some m\<close>, where \<open>m s\<close> tells whether \<^verbatim>\<open>re.FindStringIndex(s)\<close> is not nil.
  \<^item> \<open>sort_Sort\<close> is \<^verbatim>\<open>sort.Sort\<close> on a \<^verbatim>\<open>timeSlice\<close>.
  \<^item> \<open>client_Tags repo\<close> is \<^verbatim>\<open>client.Tags(repo)\<close>.
  \<^item> \<open>client_TagInfo repo tag\<close> is \<open>None\<close> when the v1 manifest that
    \<^verbatim>\<open>client.TagInfo(repo, tag, true)\<close> returns is empty, and otherwise the instant that
    \<^verbatim>\<open>gjson\<close> reads from its \<^verbatim>\<open>created\<close> field.
  \<^item> \<open>map_range m\<close> is the order in which \<^verbatim>\<open>range\<close> visits the entries of the Go map
    \<open>m\<close>, which the language leaves open.
  The registry is read as a snapshot: the model records the \<^verbatim>\<open>DeleteTag\<close> calls and does
  not feed them back into later reads.
\<close>

record extern =
  regexp_Compile :: "string \<Rightarrow> (string \<Rightarrow> bool) option"
  sort_Sort :: "tagData list \<Rightarrow> tagData list"
  client_Tags :: "string \<Rightarrow> string list"
  client_TagInfo :: "string \<Rightarrow> string \<Rightarrow> int option"
  map_range :: "(TagConfig \<times> tagData list) list \<Rightarrow> (TagConfig \<times> tagData list) list"

text \<open>
  The log lines that report a skip, a failure or a purge step. The purely informational
  lines ("Processing repo", "scanning", "Repo regex", the three summary lines) are left
  out; the summary lines print the lists that \<open>outcome\<close> carries.
\<close>

datatype event =
    SkipRepoRegex string
  | NoMatchForRepo string
  | SkipTagRegex string string
  | SkipTagNoMatch string string
  | MissingManifest string string
  | Purging string nat string
  | ShouldPurge string string

datatype error = RegexCompileError string

text \<open>
  What one call of \<^verbatim>\<open>analyzeRepo\<close> leaves behind: the two lists it logs, the
  \<^verbatim>\<open>client.DeleteTag(repo, tag)\<close> calls it made, in order, each as the pair of its
  arguments, and its log.
\<close>

record outcome =
  keepList :: "string list"
  purgeList :: "string list"
  deleteTagCalls :: "(string \<times> string) list"
  logLines :: "event list"

text \<open>An early \<^verbatim>\<open>return\<close>: both lists are still empty and nothing was deleted.\<close>

definition returnEarly :: "event list \<Rightarrow> outcome" where
  "returnEarly lg = \<lparr>keepList = [], purgeList = [], deleteTagCalls = [], logLines = lg\<rparr>"

text \<open>tasks.go 85--87, part\_000 92--94.\<close>

definition repoFullName :: "string \<Rightarrow> string \<Rightarrow> string" where
  "repoFullName namespace repo =
     (if namespace \<noteq> ''library'' then namespace @ ''/'' @ repo else repo)"

subsection \<open>tasks.go\<close>

text \<open>
  tasks.go 91--103: the first rule whose regex matches the repository; a regex that does
  not compile ends the search with an error.
\<close>

fun resolveRepoRule ::
  "(string \<Rightarrow> (string \<Rightarrow> bool) option) \<Rightarrow> string \<Rightarrow> PurgeConfig list \<Rightarrow> error + PurgeConfig option" where
  "resolveRepoRule compile repo [] = Inr None"
| "resolveRepoRule compile repo (config # rest) =
     (case compile (RepoRegex config) of
        None \<Rightarrow> Inl (RegexCompileError (RepoRegex config))
      | Some re \<Rightarrow>
          if re repo then Inr (Some config) else resolveRepoRule compile repo rest)"

text \<open>
  tasks.go 116--137: the loop over the tags, with \<^verbatim>\<open>tagsFromRepo\<close> and the log as
  accumulator. \<open>Inl\<close> is the \<^verbatim>\<open>return\<close> of line 122.
\<close>

fun scanTags ::
  "extern \<Rightarrow> string \<Rightarrow> PurgeConfig \<Rightarrow> string list \<Rightarrow> tagData list \<times> event list
     \<Rightarrow> event list + tagData list \<times> event list" where
  "scanTags x repo purgeConfig [] (tagsFromRepo, lg) = Inr (tagsFromRepo, lg)"
| "scanTags x repo purgeConfig (tag # rest) (tagsFromRepo, lg) =
     (case regexp_Compile x (TagsRegex purgeConfig) of
        None \<Rightarrow> Inl (lg @ [SkipTagRegex repo tag])
      | Some re \<Rightarrow>
          if \<not> re tag
          then scanTags x repo purgeConfig rest (tagsFromRepo, lg @ [SkipTagNoMatch repo tag])
          else (case client_TagInfo x repo tag of
                  None \<Rightarrow>
                    scanTags x repo purgeConfig rest (tagsFromRepo, lg @ [MissingManifest repo tag])
                | Some c \<Rightarrow>
                    scanTags x repo purgeConfig rest
                      (tagsFromRepo @ [\<lparr>name = tag, created = c\<rparr>], lg)))"

text \<open>
  tasks.go 178--186. The outer loop variable is named \<^verbatim>\<open>repo\<close> and ranges over
  \<^verbatim>\<open>purgeTags\<close>; the inner loop ranges over \<^verbatim>\<open>purgeTags\<close> again.
\<close>

definition deleteCalls :: "bool \<Rightarrow> string list \<Rightarrow> (string \<times> string) list" where
  "deleteCalls purgeDryRun purgeTags =
     concat (map (\<lambda>repo. if purgeDryRun then []
                          else map (\<lambda>tag. (repo, tag)) purgeTags) purgeTags)"

definition purgeLog :: "string \<Rightarrow> string list \<Rightarrow> event list" where
  "purgeLog dryRunText purgeTags =
     map (\<lambda>repo. Purging repo (length purgeTags) dryRunText) purgeTags"

definition analyzeRepo ::
  "extern \<Rightarrow> string \<Rightarrow> string \<Rightarrow> PurgeConfig list \<Rightarrow> int \<Rightarrow> bool \<Rightarrow> string \<Rightarrow> outcome" where
  "analyzeRepo x namespace repo0 purgeTagsConfig now purgeDryRun dryRunText =
     (let repo = repoFullName namespace repo0
      in case resolveRepoRule (regexp_Compile x) repo purgeTagsConfig of
           Inl e \<Rightarrow> returnEarly [SkipRepoRegex repo]
         | Inr None \<Rightarrow> returnEarly [NoMatchForRepo repo]
         | Inr (Some purgeConfig) \<Rightarrow>
             let tags = client_Tags x repo
             in if length tags = 0 then returnEarly []
                else (case scanTags x repo purgeConfig tags ([], []) of
                        Inl lg \<Rightarrow> returnEarly lg
                      | Inr (tagsFromRepo, lg) \<Rightarrow>
                          let d = partitionTags (sort_Sort x) now
                                    (TagsKeepDays purgeConfig) (TagsKeepCount purgeConfig)
                                    tagsFromRepo
                          in \<lparr>keepList = keep d, purgeList = purge d,
                              deleteTagCalls = deleteCalls purgeDryRun (purge d),
                              logLines = lg @ purgeLog dryRunText (purge d)\<rparr>))"

text \<open>
  tasks.go 45--76. \<open>catalog\<close> is the result of \<^verbatim>\<open>client.Repositories(true)\<close>, as the list
  of its entries in the order the outer \<^verbatim>\<open>range\<close> visits them, and \<open>now\<close> is
  \<^verbatim>\<open>time.Now().UTC()\<close>. The result has one outcome for each call of \<^verbatim>\<open>analyzeRepo\<close>.
\<close>

definition catchAll :: "int \<Rightarrow> int \<Rightarrow> PurgeConfig" where
  "catchAll purgeTagsKeepDays purgeTagsKeepCount =
     \<lparr>RepoRegex = ''.*'', TagsRegex = ''.*'',
      TagsKeepDays = purgeTagsKeepDays, TagsKeepCount = purgeTagsKeepCount\<rparr>"

definition PurgeOldTags ::
  "extern \<Rightarrow> bool \<Rightarrow> int \<Rightarrow> int \<Rightarrow> PurgeConfig list \<Rightarrow> (string \<times> string list) list \<Rightarrow> int
     \<Rightarrow> outcome list" where
  "PurgeOldTags x purgeDryRun purgeTagsKeepDays purgeTagsKeepCount purgeTagsConfig0 catalog now =
     (let purgeTagsConfig = purgeTagsConfig0 @ [catchAll purgeTagsKeepDays purgeTagsKeepCount];
          dryRunText = (if purgeDryRun then ''skipped'' else [])
      in concat (map (\<lambda>(namespace, repos).
                   map (\<lambda>repo. analyzeRepo x namespace repo purgeTagsConfig now
                                 purgeDryRun dryRunText) repos) catalog))"

subsection \<open>part\_000\<close>

text \<open>part\_000 98--110.\<close>

fun resolveRepoRule_part000 ::
  "(string \<Rightarrow> (string \<Rightarrow> bool) option) \<Rightarrow> string \<Rightarrow> PurgeConfig_part000 list
     \<Rightarrow> error + PurgeConfig_part000 option" where
  "resolveRepoRule_part000 compile repo [] = Inr None"
| "resolveRepoRule_part000 compile repo (config # rest) =
     (case compile (RepoRegex_part000 config) of
        None \<Rightarrow> Inl (RegexCompileError (RepoRegex_part000 config))
      | Some re \<Rightarrow>
          if re repo then Inr (Some config) else resolveRepoRule_part000 compile repo rest)"

text \<open>part\_000 125--139: the first tag rule whose regex matches the tag.\<close>

fun resolveTagRule ::
  "(string \<Rightarrow> (string \<Rightarrow> bool) option) \<Rightarrow> string \<Rightarrow> TagConfig list \<Rightarrow> error + TagConfig option" where
  "resolveTagRule compile tag [] = Inr None"
| "resolveTagRule compile tag (tagConfig # rest) =
     (case compile (TagsRegex_part000 tagConfig) of
        None \<Rightarrow> Inl (RegexCompileError (TagsRegex_part000 tagConfig))
      | Some re \<Rightarrow>
          if re tag then Inr (Some tagConfig) else resolveTagRule compile tag rest)"

text \<open>
  \<^verbatim>\<open>tagsFromRepo[k] = append(tagsFromRepo[k], v)\<close> on a map held as the list of its
  entries: the value joins the entry of its key, or starts a new entry.
\<close>

fun mapAppend :: "'k \<Rightarrow> 'v \<Rightarrow> ('k \<times> 'v list) list \<Rightarrow> ('k \<times> 'v list) list" where
  "mapAppend k v [] = [(k, [v])]"
| "mapAppend k v ((k', vs) # m) =
     (if k' = k then (k', vs @ [v]) # m else (k', vs) # mapAppend k v m)"

text \<open>part\_000 123--153. \<open>Inl\<close> is the \<^verbatim>\<open>return\<close> of line 131.\<close>

fun scanTags_part000 ::
  "extern \<Rightarrow> string \<Rightarrow> PurgeConfig_part000 \<Rightarrow> string list
     \<Rightarrow> (TagConfig \<times> tagData list) list \<times> event list
     \<Rightarrow> event list + (TagConfig \<times> tagData list) list \<times> event list" where
  "scanTags_part000 x repo purgeConfig [] (tagsFromRepo, lg) = Inr (tagsFromRepo, lg)"
| "scanTags_part000 x repo purgeConfig (tag # rest) (tagsFromRepo, lg) =
     (case resolveTagRule (regexp_Compile x) tag (Tags_part000 purgeConfig) of
        Inl e \<Rightarrow> Inl (lg @ [SkipTagRegex repo tag])
      | Inr None \<Rightarrow>
          scanTags_part000 x repo purgeConfig rest (tagsFromRepo, lg @ [SkipTagNoMatch repo tag])
      | Inr (Some selectedTagConfig) \<Rightarrow>
          (case client_TagInfo x repo tag of
             None \<Rightarrow>
               scanTags_part000 x repo purgeConfig rest
                 (tagsFromRepo, lg @ [MissingManifest repo tag])
           | Some c \<Rightarrow>
               scanTags_part000 x repo purgeConfig rest
                 (mapAppend selectedTagConfig \<lparr>name = tag, created = c\<rparr> tagsFromRepo, lg)))"

text \<open>
  part\_000 158--193: the loop over the entries of the map, with \<^verbatim>\<open>purgeTags\<close> and
  \<^verbatim>\<open>keepTags\<close> as accumulator.
\<close>

fun partitionGroups ::
  "(tagData list \<Rightarrow> tagData list) \<Rightarrow> int \<Rightarrow> (TagConfig \<times> tagData list) list
     \<Rightarrow> string list \<times> string list \<Rightarrow> string list \<times> string list" where
  "partitionGroups srt now [] (purgeTags, keepTags) = (purgeTags, keepTags)"
| "partitionGroups srt now ((tagConfig, tags) # rest) (purgeTags, keepTags) =
     (let d = partitionTags_part000 srt now (TagsKeepDays_part000 tagConfig)
                (TagsKeepCount_part000 tagConfig) tags
      in partitionGroups srt now rest (purgeTags @ purge d, keepTags @ keep d))"

text \<open>part\_000 205--213.\<close>

definition deleteCalls_part000 :: "bool \<Rightarrow> string \<Rightarrow> string list \<Rightarrow> (string \<times> string) list" where
  "deleteCalls_part000 purgeDryRun repo purgeTags =
     concat (map (\<lambda>tag. if purgeDryRun then [] else [(repo, tag)]) purgeTags)"

definition purgeLog_part000 :: "bool \<Rightarrow> string \<Rightarrow> string \<Rightarrow> string list \<Rightarrow> event list" where
  "purgeLog_part000 purgeDryRun dryRunText repo purgeTags =
     concat (map (\<lambda>tag. Purging repo (length purgeTags) dryRunText
                          # (if purgeDryRun then [ShouldPurge repo tag] else [])) purgeTags)"

definition analyzeRepo_part000 ::
  "extern \<Rightarrow> string \<Rightarrow> string \<Rightarrow> PurgeConfig_part000 list \<Rightarrow> int \<Rightarrow> bool \<Rightarrow> string \<Rightarrow> outcome" where
  "analyzeRepo_part000 x namespace repo0 purgeTagsConfig now purgeDryRun dryRunText =
     (let repo = repoFullName namespace repo0
      in case resolveRepoRule_part000 (regexp_Compile x) repo purgeTagsConfig of
           Inl e \<Rightarrow> returnEarly [SkipRepoRegex repo]
         | Inr None \<Rightarrow> returnEarly [NoMatchForRepo repo]
         | Inr (Some purgeConfig) \<Rightarrow>
             let tags = client_Tags x repo
             in if length tags = 0 then returnEarly []
                else (case scanTags_part000 x repo purgeConfig tags ([], []) of
                        Inl lg \<Rightarrow> returnEarly lg
                      | Inr (tagsFromRepo, lg) \<Rightarrow>
                          let pk = partitionGroups (sort_Sort x) now (map_range x tagsFromRepo)
                                     ([], [])
                          in \<lparr>keepList = snd pk, purgeList = fst pk,
                              deleteTagCalls = deleteCalls_part000 purgeDryRun repo (fst pk),
                              logLines =
                                lg @ purgeLog_part000 purgeDryRun dryRunText repo (fst pk)\<rparr>))"

text \<open>part\_000 49--84.\<close>

definition catchAll_part000 :: "int \<Rightarrow> int \<Rightarrow> PurgeConfig_part000" where
  "catchAll_part000 purgeTagsKeepDays purgeTagsKeepCount =
     \<lparr>RepoRegex_part000 = ''.*'',
      Tags_part000 = [\<lparr>TagsRegex_part000 = ''.*'',
                       TagsKeepDays_part000 = purgeTagsKeepDays,
                       TagsKeepCount_part000 = purgeTagsKeepCount\<rparr>]\<rparr>"

definition PurgeOldTags_part000 ::
  "extern \<Rightarrow> bool \<Rightarrow> int \<Rightarrow> int \<Rightarrow> PurgeConfig_part000 list \<Rightarrow> (string \<times> string list) list \<Rightarrow> int
     \<Rightarrow> outcome list" where
  "PurgeOldTags_part000 x purgeDryRun purgeTagsKeepDays purgeTagsKeepCount purgeTagsConfig0
     catalog now =
     (let purgeTagsConfig =
            purgeTagsConfig0 @ [catchAll_part000 purgeTagsKeepDays purgeTagsKeepCount];
          dryRunText = (if purgeDryRun then ''skipped'' else [])
      in concat (map (\<lambda>(namespace, repos).
                   map (\<lambda>repo. analyzeRepo_part000 x namespace repo purgeTagsConfig now
                                 purgeDryRun dryRunText) repos) catalog))"

subsection \<open>Predicates and data used in the statements\<close>

text \<open>The test of tasks.go 150 and part\_000 173 on one tag.\<close>

definition stale :: "int \<Rightarrow> int \<Rightarrow> tagData \<Rightarrow> bool" where
  "stale now keepDays t = (keepDays < deltaDays now (created t))"

text \<open>
  A group of five tags aged 1, 10, 40, 90 and 200 days at \<open>scenarioNow\<close>, listed newest
  first and in another order, and a group of three tags that are all older than 30 days,
  listed in the order of their names.
\<close>

definition nsPerDay :: int where
  "nsPerDay = 24 * (60 * 60 * 1000000000)"

definition scenarioNow :: int where
  "scenarioNow = 1000 * nsPerDay"

definition tagAged :: "string \<Rightarrow> int \<Rightarrow> tagData" where
  "tagAged n days = \<lparr>name = n, created = scenarioNow - days * nsPerDay\<rparr>"

definition scenarioGroup :: "tagData list" where
  "scenarioGroup =
     [tagAged ''t1'' 1, tagAged ''t10'' 10, tagAged ''t40'' 40, tagAged ''t90'' 90,
      tagAged ''t200'' 200]"

definition shuffledGroup :: "tagData list" where
  "shuffledGroup =
     [tagAged ''t90'' 90, tagAged ''t1'' 1, tagAged ''t200'' 200, tagAged ''t40'' 40,
      tagAged ''t10'' 10]"

definition unsortedGroup :: "tagData list" where
  "unsortedGroup = [tagAged ''a'' 200, tagAged ''b'' 40, tagAged ''c'' 90]"

text \<open>A tag that is one nanosecond short of 1000 days old at \<open>scenarioNow\<close>.\<close>

definition nearlyThousandDays :: tagData where
  "nearlyThousandDays = \<lparr>name = ''x'', created = 1\<rparr>"

text \<open>
  A stand-in for \<^verbatim>\<open>regexp\<close> at concrete inputs. It agrees with \<^verbatim>\<open>regexp\<close> on the three
  kinds of pattern used below: \<^verbatim>\<open>.*\<close> matches every string, \<^verbatim>\<open>[\<close> does not compile
  (a bracket that is never closed), and a pattern of letters matches the strings that
  contain it.
\<close>

fun hasPrefix :: "string \<Rightarrow> string \<Rightarrow> bool" where
  "hasPrefix [] s = True"
| "hasPrefix (c # p) [] = False"
| "hasPrefix (c # p) (d # s) = (c = d \<and> hasPrefix p s)"

fun containsAt :: "string \<Rightarrow> string \<Rightarrow> bool" where
  "containsAt p [] = hasPrefix p []"
| "containsAt p (d # s) = (hasPrefix p (d # s) \<or> containsAt p s)"

definition sampleCompile :: "string \<Rightarrow> (string \<Rightarrow> bool) option" where
  "sampleCompile p =
     (if p = ''.*'' then Some (\<lambda>s. True)
      else if p = ''['' then None
      else Some (containsAt p))"

text \<open>
  A registry with one repository \<^verbatim>\<open>app\<close> whose tags \<^verbatim>\<open>a\<close>, \<^verbatim>\<open>b\<close> and \<^verbatim>\<open>c\<close> are 200, 40
  and 90 days old; \<^verbatim>\<open>client.Tags\<close> lists them by name.
\<close>

definition sampleExtern :: extern where
  "sampleExtern =
     \<lparr>regexp_Compile = sampleCompile,
      sort_Sort = insertionSort,
      client_Tags = (\<lambda>repo. if repo = ''app'' then [''a'', ''b'', ''c''] else []),
      client_TagInfo = (\<lambda>repo tag.
         if repo = ''app'' \<and> tag = ''a'' then Some (created (tagAged ''a'' 200))
         else if repo = ''app'' \<and> tag = ''b'' then Some (created (tagAged ''b'' 40))
         else if repo = ''app'' \<and> tag = ''c'' then Some (created (tagAged ''c'' 90))
         else None),
      map_range = (\<lambda>m. m)\<rparr>"

text \<open>Rules with a regex that does not compile, and rules that do not match \<^verbatim>\<open>app\<close>.\<close>

definition brokenRepoRule :: PurgeConfig where
  "brokenRepoRule =
     \<lparr>RepoRegex = ''['', TagsRegex = ''.*'', TagsKeepDays = 30, TagsKeepCount = 1\<rparr>"

definition otherRepoRule :: PurgeConfig where
  "otherRepoRule =
     \<lparr>RepoRegex = ''web'', TagsRegex = ''.*'', TagsKeepDays = 7, TagsKeepCount = 2\<rparr>"

definition brokenTagRule_part000 :: PurgeConfig_part000 where
  "brokenTagRule_part000 =
     \<lparr>RepoRegex_part000 = ''ap'',
      Tags_part000 =
        [\<lparr>TagsRegex_part000 = ''a'', TagsKeepDays_part000 = 30, TagsKeepCount_part000 = 1\<rparr>,
         \<lparr>TagsRegex_part000 = ''['', TagsKeepDays_part000 = 30, TagsKeepCount_part000 = 1\<rparr>]\<rparr>"

definition otherRepoRule_part000 :: PurgeConfig_part000 where
  "otherRepoRule_part000 =
     \<lparr>RepoRegex_part000 = ''web'',
      Tags_part000 =
        [\<lparr>TagsRegex_part000 = ''.*'', TagsKeepDays_part000 = 7, TagsKeepCount_part000 = 2\<rparr>]\<rparr>"

section \<open>Properties\<close>

subsection \<open>The age in days\<close>

lemma ilog2_nonneg: "0 \<le> ilog2 n"
proof (induction n rule: ilog2.induct)
  case (1 n)
  show ?case
  proof (cases "n < 2")
    case True
    then show ?thesis by (simp add: ilog2.simps [of n])
  next
    case False
    then show ?thesis using "1.IH" by (simp add: ilog2.simps [of n])
  qed
qed

lemma ilog2_unique: "2 ^ k \<le> n \<Longrightarrow> n < 2 ^ Suc k \<Longrightarrow> ilog2 n = int k"
proof (induction k arbitrary: n)
  case 0
  then have "n = 1" by simp
  then show ?case by (simp add: ilog2.simps [of 1])
next
  case (Suc k)
  have "(2::int) ^ Suc k \<ge> 2" by simp
  then have n2: "\<not> n < 2" using Suc.prems(1) by linarith
  have a: "2 ^ k \<le> n div 2" using Suc.prems(1) by simp
  have b: "n div 2 < 2 ^ Suc k" using Suc.prems(2) by simp
  have "ilog2 (n div 2) = int k" using Suc.IH [OF a b] .
  then show ?case using n2 by (simp add: ilog2.simps [of n])
qed

lemma ilog2_bounds:
  "1 \<le> n \<Longrightarrow> 2 ^ nat (ilog2 n) \<le> n \<and> n < 2 ^ Suc (nat (ilog2 n))"
proof (induction n rule: ilog2.induct)
  case (1 n)
  show ?case
  proof (cases "n < 2")
    case True
    then have "n = 1" using "1.prems" by simp
    then show ?thesis by (simp add: ilog2.simps [of 1])
  next
    case False
    then have h: "1 \<le> n div 2" by simp
    have ih: "2 ^ nat (ilog2 (n div 2)) \<le> n div 2 \<and> n div 2 < 2 ^ Suc (nat (ilog2 (n div 2)))"
      using "1.IH" [OF False h] .
    have e: "nat (ilog2 n) = Suc (nat (ilog2 (n div 2)))"
      using False ilog2_nonneg [of "n div 2"] by (simp add: ilog2.simps [of n] nat_add_distrib)
    show ?thesis using ih unfolding e by auto
  qed
qed

lemma roundHalfEven_of_int: "roundHalfEven (of_int k) = k"
  by (simp add: roundHalfEven_def)

lemma roundHalfEven_quotient:
  assumes "0 < b"
  shows "roundHalfEven (of_int a / of_int b) =
           (if 2 * (a mod b) < b then a div b
            else if b < 2 * (a mod b) then a div b + 1
            else if even (a div b) then a div b else a div b + 1)"
proof -
  have f: "\<lfloor>of_int a / (of_int b :: rat)\<rfloor> = a div b"
    by (rule floor_divide_of_int_eq)
  have "of_int a = (of_int (a div b) * of_int b + of_int (a mod b) :: rat)"
    by (metis of_int_add of_int_mult div_mult_mod_eq)
  then have r: "of_int a / of_int b - (of_int (a div b) :: rat) = of_int (a mod b) / of_int b"
    using assms by (simp add: field_simps)
  have lt: "(of_int (a mod b) / (of_int b :: rat) < 1 / 2) = (2 * (a mod b) < b)"
  proof -
    have "(of_int (a mod b) / (of_int b :: rat) < 1 / 2) = (of_int (2 * (a mod b)) < (of_int b :: rat))"
      using assms by (simp add: field_simps)
    then show ?thesis by (simp only: of_int_less_iff)
  qed
  have gt: "(1 / 2 < of_int (a mod b) / (of_int b :: rat)) = (b < 2 * (a mod b))"
  proof -
    have "(1 / 2 < of_int (a mod b) / (of_int b :: rat)) = ((of_int b :: rat) < of_int (2 * (a mod b)))"
      using assms by (simp add: field_simps)
    then show ?thesis by (simp only: of_int_less_iff)
  qed
  show ?thesis
    by (simp only: roundHalfEven_def Let_def f r lt gt)
qed

lemma float64_zero: "float64 0 = 0"
  by (simp add: float64_def Let_def roundHalfEven_def)

text \<open>
  Once the exponent of \<open>x\<close> is known, \<open>float64 x\<close> is \<open>x\<close> rounded to a multiple of
  \<open>2 powi (e - 52)\<close>.
\<close>

lemma float64_bracket:
  assumes lo: "2 powi e \<le> \<bar>x\<bar>" and hi: "\<bar>x\<bar> < 2 powi (e + 1)" and n: "- 1022 \<le> e"
  shows "float64 x = of_int (roundHalfEven (x / 2 powi (e - 52))) * 2 powi (e - 52)"
proof -
  define k where "k = nat (e + 1074)"
  have ke: "int k = e + 1074" using n by (simp add: k_def)
  have p: "(2::rat) powi e * 2 ^ 1074 = 2 ^ k"
  proof -
    have "(2::rat) powi e * 2 powi 1074 = 2 powi (e + 1074)"
      by (simp add: power_int_add)
    also have "\<dots> = 2 powi (int k)" by (simp only: ke)
    also have "\<dots> = 2 ^ k" by (rule power_int_of_nat)
    finally show ?thesis by simp
  qed
  have p1: "(2::rat) powi (e + 1) * 2 ^ 1074 = 2 ^ Suc k"
  proof -
    have "(2::rat) powi (e + 1) * 2 powi 1074 = 2 powi (e + 1 + 1074)"
      by (simp add: power_int_add)
    also have "\<dots> = 2 powi (int (Suc k))" using ke by (simp add: add.commute add.left_commute)
    also have "\<dots> = 2 ^ Suc k" by (rule power_int_of_nat)
    finally show ?thesis by simp
  qed
  have "(2::rat) ^ k \<le> \<bar>x\<bar> * 2 ^ 1074"
    using lo p by (metis mult_right_mono zero_le_numeral zero_le_power)
  then have a: "2 ^ k \<le> \<lfloor>\<bar>x\<bar> * 2 ^ 1074\<rfloor>"
    by (simp add: le_floor_iff)
  have "\<bar>x\<bar> * 2 ^ 1074 < (2::rat) ^ Suc k"
    using hi p1 by (metis mult_strict_right_mono zero_less_numeral zero_less_power)
  then have b: "\<lfloor>\<bar>x\<bar> * 2 ^ 1074\<rfloor> < 2 ^ Suc k"
    by (simp add: floor_less_iff)
  have "ilog2 \<lfloor>\<bar>x\<bar> * 2 ^ 1074\<rfloor> = int k"
    by (rule ilog2_unique [OF a b])
  then have "max (ilog2 \<lfloor>\<bar>x\<bar> * 2 ^ 1074\<rfloor> - 1074) (- 1022) = e"
    using ke n by simp
  then show ?thesis by (simp add: float64_def Let_def)
qed

text \<open>Integers below \<open>2 ^ 53\<close> in magnitude are binary64 numbers.\<close>

lemma float64_of_int:
  assumes "\<bar>n\<bar> < 2 ^ 53"
  shows "float64 (of_int n) = of_int n"
proof (cases "n = 0")
  case True
  then show ?thesis by (simp add: float64_zero)
next
  case False
  then have m: "1 \<le> \<bar>n\<bar>" by simp
  define k where "k = nat (ilog2 \<bar>n\<bar>)"
  have b: "2 ^ k \<le> \<bar>n\<bar>" "\<bar>n\<bar> < 2 ^ Suc k"
    using ilog2_bounds [OF m] by (simp_all add: k_def)
  have "(2::int) ^ k < 2 ^ 53" using b(1) assms by linarith
  then have k52: "k < 53" by (rule power_less_imp_less_exp [rotated]) simp
  have lo: "(2::rat) powi int k \<le> \<bar>of_int n\<bar>"
  proof -
    have "(2::rat) ^ k \<le> of_int \<bar>n\<bar>" using b(1) by (metis of_int_le_iff of_int_numeral of_int_power)
    then show ?thesis by (simp add: power_int_of_nat)
  qed
  have hi: "\<bar>of_int n :: rat\<bar> < 2 powi (int k + 1)"
  proof -
    have "of_int \<bar>n\<bar> < (2::rat) ^ Suc k" using b(2) by (metis of_int_less_iff of_int_numeral of_int_power)
    moreover have "(2::rat) powi (int k + 1) = 2 ^ Suc k"
      using power_int_of_nat [of "2::rat" "Suc k"] by (simp add: add.commute)
    ultimately show ?thesis by simp
  qed
  have q: "(2::rat) powi (int k - 52) * 2 ^ (52 - k) = 1"
  proof -
    have "(2::rat) powi (int k - 52) * 2 powi (int (52 - k)) = 2 powi (int k - 52 + int (52 - k))"
      by (simp add: power_int_add)
    also have "\<dots> = 1" using k52 by simp
    finally show ?thesis by (simp add: power_int_of_nat)
  qed
  have ne: "(2::rat) powi (int k - 52) \<noteq> 0" by simp
  have d: "of_int n / (2::rat) powi (int k - 52) = of_int (n * 2 ^ (52 - k))"
  proof -
    have "of_int (n * 2 ^ (52 - k)) * (2::rat) powi (int k - 52)
            = of_int n * ((2::rat) powi (int k - 52) * 2 ^ (52 - k))"
      by (simp add: mult.commute mult.left_commute)
    also have "\<dots> = of_int n" by (simp only: q mult_1_right)
    finally show ?thesis using ne by (simp add: field_simps)
  qed
  have "float64 (of_int n)
          = of_int (roundHalfEven (of_int n / 2 powi (int k - 52))) * 2 powi (int k - 52)"
    by (rule float64_bracket [OF lo hi]) simp
  also have "\<dots> = of_int (n * 2 ^ (52 - k)) * 2 powi (int k - 52)"
    by (simp only: d roundHalfEven_of_int)
  also have "\<dots> = of_int n * ((2::rat) powi (int k - 52) * 2 ^ (52 - k))"
    by (simp add: mult.commute mult.left_commute)
  also have "\<dots> = of_int n" by (simp only: q mult_1_right)
  finally show ?thesis .
qed

lemma quo_rem_whole:
  assumes "0 < b"
  shows "quo (h * b) b = h \<and> rem (h * b) b = 0"
proof -
  have "- (h * b) div b = - h"
    using assms by (metis mult_minus_left nonzero_mult_div_cancel_right less_irrefl)
  moreover have "h * b div b = h" using assms by simp
  ultimately have "quo (h * b) b = h" by (simp add: quo_def)
  then show ?thesis by (simp add: rem_def mult.commute)
qed

lemma Hours_whole:
  assumes "\<bar>h\<bar> < 2 ^ 53"
  shows "Hours (h * Hour) = of_int h"
proof -
  have q: "quo (h * Hour) Hour = h" "rem (h * Hour) Hour = 0"
    using quo_rem_whole [of Hour h] by (simp_all add: Hour_def)
  show ?thesis
    by (simp add: Hours_def Let_def q float64_zero float64_of_int [OF assms])
qed

lemma int_of_float64_of_int: "int_of_float64 (of_int k) = k"
proof -
  have "- \<lfloor>- (of_int k :: rat)\<rfloor> = k"
    by (metis floor_of_int of_int_minus minus_minus)
  then show ?thesis by (simp add: int_of_float64_def)
qed

text \<open>
  On a whole number of days every step of the computation is exact, and the age is that
  number.
\<close>

lemma deltaDays_whole_days:
  assumes "minDuration \<le> a * nsPerDay" "a * nsPerDay \<le> maxDuration"
  shows "deltaDays (c + a * nsPerDay) c = a"
proof -
  have b: "\<bar>a\<bar> * nsPerDay < 2 ^ 63 + 1"
    using assms by (auto simp: minDuration_def maxDuration_def abs_if)
  have a53: "\<bar>a\<bar> < 2 ^ 53" using b by (simp add: nsPerDay_def)
  have "\<bar>24 * a\<bar> * (60 * 60 * 1000000000) < 2 ^ 63 + 1"
    using b by (simp add: nsPerDay_def abs_mult)
  then have h53: "\<bar>24 * a\<bar> < 2 ^ 53" by simp
  have t: "time_Sub (c + a * nsPerDay) c = (24 * a) * Hour"
    using assms by (simp add: time_Sub_def Let_def nsPerDay_def Hour_def)
  have "Hours ((24 * a) * Hour) = of_int (24 * a)"
    by (rule Hours_whole [OF h53])
  then have "Hours (time_Sub (c + a * nsPerDay) c) / 24 = of_int a"
    by (simp add: t)
  then show ?thesis
    by (simp add: deltaDays_def float64_of_int [OF a53] int_of_float64_of_int)
qed

text \<open>
  One nanosecond short of 1000 days, the computation rounds up: the duration is 23999
  hours and 3599999999999 nanoseconds, the sum of the hours and the fraction of an hour
  is nearer to 24000 than to the binary64 number below it, and the age is 1000 days, not
  999.
\<close>

lemma float64_nearly_one:
  "float64 (3599999999999 / 3600000000000) = 9007199254738490 / 9007199254740992"
proof -
  have q: "(2::rat) powi (- 1 - 52) = 1 / 9007199254740992"
    by (simp add: power_int_minus field_simps)
  have x: "(3599999999999 / 3600000000000 :: rat) / (1 / 9007199254740992)
             = of_int (3599999999999 * 9007199254740992) / of_int 3600000000000"
    by simp
  have r: "roundHalfEven
       (of_int (3599999999999 * 9007199254740992) / of_int 3600000000000) = 9007199254738490"
    by (subst roundHalfEven_quotient) simp_all
  have "float64 (3599999999999 / 3600000000000)
          = of_int (roundHalfEven ((3599999999999 / 3600000000000) / 2 powi (- 1 - 52)))
            * 2 powi (- 1 - 52)"
    by (rule float64_bracket) (simp_all add: power_int_minus)
  also have "\<dots> = of_int (roundHalfEven
       (of_int (3599999999999 * 9007199254740992) / of_int 3600000000000))
            * (1 / 9007199254740992)"
    by (simp only: q x)
  also have "\<dots> = 9007199254738490 / 9007199254740992"
    by (simp only: r; simp)
  finally show ?thesis .
qed

lemma float64_nearly_24000:
  "float64 (23999 + 9007199254738490 / 9007199254740992) = 24000"
proof -
  have q: "(2::rat) powi (14 - 52) = 1 / 274877906944"
    by (simp add: power_int_minus field_simps)
  have x: "(23999 + 9007199254738490 / 9007199254740992 :: rat) / (1 / 274877906944)
             = of_int (23999 * 9007199254740992 + 9007199254738490) / of_int 32768"
    by simp
  have r: "roundHalfEven
       (of_int (23999 * 9007199254740992 + 9007199254738490) / of_int 32768) = 6597069766656000"
    by (subst roundHalfEven_quotient) simp_all
  have "float64 (23999 + 9007199254738490 / 9007199254740992)
          = of_int (roundHalfEven ((23999 + 9007199254738490 / 9007199254740992)
              / 2 powi (14 - 52))) * 2 powi (14 - 52)"
    by (rule float64_bracket) simp_all
  also have "\<dots> = of_int (roundHalfEven
       (of_int (23999 * 9007199254740992 + 9007199254738490) / of_int 32768))
            * (1 / 274877906944)"
    by (simp only: q x)
  also have "\<dots> = 24000"
    by (simp only: r; simp)
  finally show ?thesis .
qed

lemma Hours_one_ns_short: "Hours (1000 * nsPerDay - 1) = 24000"
proof -
  have q: "quo (1000 * nsPerDay - 1) Hour = 23999" "rem (1000 * nsPerDay - 1) Hour = 3599999999999"
    by (simp_all add: quo_def rem_def nsPerDay_def Hour_def)
  have a: "float64 (of_int 23999) = 23999" "float64 (of_int 3599999999999) = 3599999999999"
    using float64_of_int [of 23999] float64_of_int [of 3599999999999] by simp_all
  have c: "(60 * 60 * 1000000000 :: rat) = 3600000000000" by simp
  show ?thesis
    unfolding Hours_def Let_def q
    by (simp only: a c float64_nearly_one float64_nearly_24000)
qed

lemma deltaDays_one_ns_short: "deltaDays scenarioNow 1 = 1000"
proof -
  have t: "time_Sub scenarioNow 1 = 1000 * nsPerDay - 1"
    by (simp add: time_Sub_def Let_def scenarioNow_def nsPerDay_def minDuration_def
        maxDuration_def)
  have "float64 (of_int 1000) = 1000"
    using float64_of_int [of 1000] by simp
  then have "float64 (24000 / 24) = 1000" by simp
  moreover have "int_of_float64 1000 = 1000"
    using int_of_float64_of_int [of 1000] by simp
  ultimately show ?thesis
    by (simp only: deltaDays_def t Hours_one_ns_short)
qed

subsection \<open>The two loops of the partition\<close>

lemma filterByDays_filter:
  "filterByDays now kd ts (p, k) =
     (p @ map name (filter (stale now kd) ts), k @ map name (filter (\<lambda>t. \<not> stale now kd t) ts))"
  by (induction ts arbitrary: p k) (simp_all add: stale_def)

lemma length_filter_split:
  "length (filter P ts) + length (filter (\<lambda>t. \<not> P t) ts) = length ts"
  by (induction ts) simp_all

lemma filterByDays_lengths:
  "length (fst (filterByDays now kd ts ([], []))) + length (snd (filterByDays now kd ts ([], [])))
     = length ts"
  by (simp add: filterByDays_filter length_filter_split)

lemma mset_filter_split:
  "mset (map f (filter P ts)) + mset (map f (filter (\<lambda>t. \<not> P t) ts)) = mset (map f ts)"
  by (induction ts) simp_all

lemma keepMinimalCount_mset:
  "mset (fst (keepMinimalCount n kc (p, k))) + mset (snd (keepMinimalCount n kc (p, k)))
     = mset p + mset k"
proof -
  have "mset (drop (nat kc) p) + mset (take (nat kc) p) = mset p"
    by (metis append_take_drop_id mset_append add.commute)
  then show ?thesis
    by (simp add: keepMinimalCount_def add.assoc add.commute add.left_commute)
qed

lemma partition_core_mset:
  "mset (fst (keepMinimalCount n kc (filterByDays now kd ts ([], []))))
     + mset (snd (keepMinimalCount n kc (filterByDays now kd ts ([], []))))
   = mset (map name ts)"
  by (simp only: filterByDays_filter keepMinimalCount_mset append_Nil mset_filter_split)

lemma keepMinimalCount_floor:
  assumes "0 \<le> kc" "length p + length k = n"
  shows "min kc (int n) \<le> int (length (snd (keepMinimalCount n kc (p, k))))"
  using assms by (auto simp: keepMinimalCount_def min_def)

lemma keepMinimalCount_no_floor:
  "keepMinimalCount n 0 (p, k) = (p, k)"
  by (simp add: keepMinimalCount_def)

lemma keepMinimalCount_small:
  assumes "int n \<le> kc" "length p + length k = n"
  shows "fst (keepMinimalCount n kc (p, k)) = []"
    and "mset (snd (keepMinimalCount n kc (p, k))) = mset p + mset k"
proof -
  have nofloor: "\<not> int n - int (length p) < kc \<Longrightarrow> p = []"
    using assms by (cases p) auto
  have notmore: "\<not> kc < int (length p)"
    using assms by auto
  show "fst (keepMinimalCount n kc (p, k)) = []"
    using nofloor notmore by (simp add: keepMinimalCount_def)
  show "mset (snd (keepMinimalCount n kc (p, k))) = mset p + mset k"
    using nofloor notmore by (auto simp: keepMinimalCount_def)
qed

text \<open>
  In the first branch of the floor the slice expressions \<^verbatim>\<open>purgeTags[:keepCount]\<close> and
  \<^verbatim>\<open>purgeTags[keepCount:]\<close> are in range, so \<open>take\<close> and \<open>drop\<close> are what they do.
\<close>

lemma keepMinimalCount_slices_in_range:
  assumes "int n - int (length purgeTags) < keepCount" "keepCount < int (length purgeTags)"
    and "length purgeTags \<le> n"
  shows "0 < keepCount \<and> nat keepCount < length purgeTags"
  using assms by linarith

lemma partitionTags_lists:
  "keep (partitionTags srt now kd kc g) =
     snd (keepMinimalCount (length (srt g)) kc (filterByDays now kd (srt g) ([], [])))"
  "purge (partitionTags srt now kd kc g) =
     fst (keepMinimalCount (length (srt g)) kc (filterByDays now kd (srt g) ([], [])))"
  by (simp_all add: partitionTags_def Let_def)

lemma partitionTags_part000_lists:
  "keep (partitionTags_part000 srt now kd kc g) =
     snd (keepMinimalCount (length g) kc (filterByDays now kd g ([], [])))"
  "purge (partitionTags_part000 srt now kd kc g) =
     fst (keepMinimalCount (length g) kc (filterByDays now kd g ([], [])))"
  by (simp_all add: partitionTags_part000_def Let_def)

lemma core_floor:
  "0 \<le> kc \<Longrightarrow>
   min kc (int (length ts))
     \<le> int (length (snd (keepMinimalCount (length ts) kc (filterByDays now kd ts ([], [])))))"
  using keepMinimalCount_floor [of kc "fst (filterByDays now kd ts ([], []))"
      "snd (filterByDays now kd ts ([], []))" "length ts"] filterByDays_lengths [of now kd ts]
  by simp

lemma core_small:
  assumes "int (length ts) \<le> kc"
  shows "fst (keepMinimalCount (length ts) kc (filterByDays now kd ts ([], []))) = []"
    and "mset (snd (keepMinimalCount (length ts) kc (filterByDays now kd ts ([], []))))
           = mset (map name ts)"
proof -
  let ?p = "map name (filter (stale now kd) ts)"
  let ?k = "map name (filter (\<lambda>t. \<not> stale now kd t) ts)"
  have f: "filterByDays now kd ts ([], []) = (?p, ?k)"
    by (simp add: filterByDays_filter)
  have l: "length ?p + length ?k = length ts"
    by (simp add: length_filter_split)
  show "fst (keepMinimalCount (length ts) kc (filterByDays now kd ts ([], []))) = []"
    using keepMinimalCount_small(1) [OF assms l] by (simp only: f)
  have "mset (snd (keepMinimalCount (length ts) kc (?p, ?k))) = mset ?p + mset ?k"
    by (rule keepMinimalCount_small(2) [OF assms l])
  then show "mset (snd (keepMinimalCount (length ts) kc (filterByDays now kd ts ([], []))))
           = mset (map name ts)"
    by (simp only: f mset_filter_split)
qed

lemma partitionTags_part000_mset:
  "mset (keep (partitionTags_part000 srt now kd kc g))
     + mset (purge (partitionTags_part000 srt now kd kc g)) = mset (map name g)"
  using partition_core_mset [of "length g" kc now kd g]
  by (simp add: partitionTags_part000_lists add.commute)

subsection \<open>The contract of the sort\<close>

lemma sortsNewestFirst_length: "sortsNewestFirst srt g \<Longrightarrow> length (srt g) = length g"
  by (metis sortsNewestFirst_def mset_eq_length)

lemma sortsNewestFirst_filter:
  "sortsNewestFirst srt g \<Longrightarrow> mset (map f (filter P (srt g))) = mset (map f (filter P g))"
proof -
  assume "sortsNewestFirst srt g"
  then have "mset (srt g) = mset g" by (simp add: sortsNewestFirst_def)
  then have "mset (filter P (srt g)) = mset (filter P g)"
    by (simp only: mset_filter)
  then show ?thesis by (simp only: mset_map)
qed

lemma partitionTags_mset:
  "mset (srt g) = mset g \<Longrightarrow>
   mset (keep (partitionTags srt now kd kc g)) + mset (purge (partitionTags srt now kd kc g))
     = mset (map name g)"
proof -
  assume p: "mset (srt g) = mset g"
  have "mset (map name (srt g)) = mset (map name g)"
    using p by (metis mset_map)
  then show ?thesis
    using partition_core_mset [of "length (srt g)" kc now kd "srt g"]
    by (simp add: partitionTags_lists add.commute)
qed

lemma split_facts:
  assumes "mset ks + mset ps = mset ns"
  shows "length ks + length ps = length ns"
    and "set ks \<union> set ps = set ns"
    and "distinct ns \<Longrightarrow> set ks \<inter> set ps = {} \<and> distinct ks \<and> distinct ps"
proof -
  have m: "mset (ks @ ps) = mset ns" using assms by simp
  show "length ks + length ps = length ns"
    using mset_eq_length [OF m] by simp
  show "set ks \<union> set ps = set ns"
    using mset_eq_setD [OF m] by simp
  show "distinct ns \<Longrightarrow> set ks \<inter> set ps = {} \<and> distinct ks \<and> distinct ps"
  proof -
    assume "distinct ns"
    then have "distinct (ks @ ps)" using m by (metis mset_eq_imp_distinct_iff)
    then show ?thesis by auto
  qed
qed

text \<open>
  When the creation times are distinct there is one newest-first order, so every sort
  that keeps the contract returns it.
\<close>

lemma newest_first_unique:
  assumes m: "mset xs = mset ys"
    and sx: "sorted_wrt (\<lambda>a b. \<not> Less b a) xs"
    and sy: "sorted_wrt (\<lambda>a b. \<not> Less b a) ys"
    and d: "distinct (map created ys)"
  shows "xs = ys"
proof (rule map_sorted_distinct_set_unique [where f = "\<lambda>t. - created t"])
  have s: "set xs = set ys" using m by (rule mset_eq_setD)
  show "set xs = set ys" by (rule s)
  have i: "inj_on created (set ys)"
    using d by (simp add: distinct_map)
  show "inj_on (\<lambda>t. - created t) (set xs \<union> set ys)"
    using i s by (auto simp: inj_on_def)
  have r: "(\<lambda>a b. \<not> Less b a) = (\<lambda>a b. - created a \<le> - created b)"
    by (auto simp: Less_def fun_eq_iff)
  show "sorted (map (\<lambda>t. - created t) xs)"
    using sx by (simp add: sorted_map r)
  show "sorted (map (\<lambda>t. - created t) ys)"
    using sy by (simp add: sorted_map r)
  have dy: "distinct (map (\<lambda>t. - created t) ys)"
    using d by (simp add: distinct_map inj_on_def)
  show "distinct (map (\<lambda>t. - created t) ys)" by (rule dy)
  have "mset (map (\<lambda>t. - created t) xs) = mset (map (\<lambda>t. - created t) ys)"
    using m by (metis mset_map)
  then show "distinct (map (\<lambda>t. - created t) xs)"
    using dy by (metis mset_eq_imp_distinct_iff)
qed

text \<open>The insertion sort keeps the contract on every input.\<close>

lemma mset_bubbleLeft: "mset (bubbleLeft t us) = add_mset t (mset us)"
  by (induction us) simp_all

lemma set_bubbleLeft: "set (bubbleLeft t us) = insert t (set us)"
  using mset_bubbleLeft [of t us] by (metis set_mset_add_mset_insert set_mset_mset)

lemma sorted_bubbleLeft:
  "sorted_wrt (\<lambda>a b. \<not> Less a b) us \<Longrightarrow> sorted_wrt (\<lambda>a b. \<not> Less a b) (bubbleLeft t us)"
  by (induction us) (auto simp: set_bubbleLeft Less_def)

lemma insertionSortFrom_mset: "mset (insertionSortFrom pre ts) = mset pre + mset ts"
  by (induction ts arbitrary: pre) (simp_all add: mset_bubbleLeft)

lemma insertionSortFrom_sorted:
  "sorted_wrt (\<lambda>a b. \<not> Less b a) pre \<Longrightarrow>
   sorted_wrt (\<lambda>a b. \<not> Less b a) (insertionSortFrom pre ts)"
proof (induction ts arbitrary: pre)
  case Nil
  then show ?case by simp
next
  case (Cons t ts)
  have "sorted_wrt (\<lambda>a b. \<not> Less a b) (rev pre)"
    using Cons.prems by (simp add: sorted_wrt_rev)
  then have "sorted_wrt (\<lambda>a b. \<not> Less a b) (bubbleLeft t (rev pre))"
    by (rule sorted_bubbleLeft)
  then have "sorted_wrt (\<lambda>a b. \<not> Less b a) (rev (bubbleLeft t (rev pre)))"
    by (simp add: sorted_wrt_rev)
  then show ?case using Cons.IH by simp
qed

lemma sortsNewestFirst_insertionSort: "sortsNewestFirst insertionSort ts"
  by (simp add: sortsNewestFirst_def insertionSort_def insertionSortFrom_mset
      insertionSortFrom_sorted)

subsection \<open>The sample groups\<close>

lemma created_tagAged: "created (tagAged n a) = scenarioNow - a * nsPerDay"
  by (simp add: tagAged_def)

lemma name_tagAged: "name (tagAged n a) = n"
  by (simp add: tagAged_def)

lemma deltaDays_tagAged:
  assumes "0 \<le> a" "a \<le> 100000"
  shows "deltaDays scenarioNow (created (tagAged n a)) = a"
proof -
  have lo: "minDuration \<le> a * nsPerDay"
    using assms by (simp add: minDuration_def nsPerDay_def)
  have hi: "a * nsPerDay \<le> maxDuration"
    using assms by (simp add: maxDuration_def nsPerDay_def)
  have c: "created (tagAged n a) + a * nsPerDay = scenarioNow"
    by (simp add: tagAged_def)
  show ?thesis
    using deltaDays_whole_days [OF lo hi, of "created (tagAged n a)"] by (simp only: c)
qed

lemma stale_tagAged:
  "0 \<le> a \<Longrightarrow> a \<le> 100000 \<Longrightarrow> stale scenarioNow kd (tagAged n a) = (kd < a)"
  by (simp add: stale_def deltaDays_tagAged)

lemma sortsNewestFirst_scenario: "sortsNewestFirst insertionSort scenarioGroup"
  by (rule sortsNewestFirst_insertionSort)

lemma sortsNewestFirst_shuffled: "sortsNewestFirst insertionSort shuffledGroup"
  by (rule sortsNewestFirst_insertionSort)

lemma insertionSort_shuffled: "insertionSort shuffledGroup = scenarioGroup"
  by (simp add: insertionSort_def shuffledGroup_def scenarioGroup_def tagAged_def
      scenarioNow_def nsPerDay_def Less_def)

lemma insertionSort_unsorted:
  "insertionSort unsortedGroup = [tagAged ''b'' 40, tagAged ''c'' 90, tagAged ''a'' 200]"
  by (simp add: insertionSort_def unsortedGroup_def Less_def created_tagAged nsPerDay_def)

lemma scenario_sorted: "sorted_wrt (\<lambda>a b. \<not> Less b a) scenarioGroup"
  by (simp add: scenarioGroup_def Less_def created_tagAged nsPerDay_def)

lemma scenario_distinct: "distinct (map created scenarioGroup)"
  by (simp add: scenarioGroup_def created_tagAged nsPerDay_def)

lemma sort_of_scenario:
  assumes "mset g = mset scenarioGroup" "sortsNewestFirst srt g"
  shows "srt g = scenarioGroup"
proof (rule newest_first_unique)
  show "mset (srt g) = mset scenarioGroup"
    using assms by (simp add: sortsNewestFirst_def)
  show "sorted_wrt (\<lambda>a b. \<not> Less b a) (srt g)"
    using assms by (simp add: sortsNewestFirst_def)
  show "sorted_wrt (\<lambda>a b. \<not> Less b a) scenarioGroup" by (rule scenario_sorted)
  show "distinct (map created scenarioGroup)" by (rule scenario_distinct)
qed

lemma length_scenario: "length scenarioGroup = 5"
  by (simp add: scenarioGroup_def)

lemma filterByDays_scenario:
  "filterByDays scenarioNow 30 scenarioGroup ([], [])
     = ([''t40'', ''t90'', ''t200''], [''t1'', ''t10''])"
  by (simp add: filterByDays_filter scenarioGroup_def stale_tagAged name_tagAged)

lemma keepMinimalCount_scenarioB:
  "keepMinimalCount 5 4 ([''t40'', ''t90'', ''t200''], [''t1'', ''t10''])
     = ([], [''t1'', ''t10'', ''t40'', ''t90'', ''t200''])"
  by (simp add: keepMinimalCount_def)

lemma partitionTags_unsorted:
  "keep (partitionTags insertionSort scenarioNow 30 1 unsortedGroup) = [''b'']"
  "purge (partitionTags insertionSort scenarioNow 30 1 unsortedGroup) = [''c'', ''a'']"
  by (simp_all add: partitionTags_lists insertionSort_unsorted filterByDays_filter
      stale_tagAged name_tagAged keepMinimalCount_def)

lemma partitionTags_part000_unsorted:
  "keep (partitionTags_part000 srt scenarioNow 30 1 unsortedGroup) = [''a'']"
  "purge (partitionTags_part000 srt scenarioNow 30 1 unsortedGroup) = [''b'', ''c'']"
  by (simp_all add: partitionTags_part000_lists unsortedGroup_def filterByDays_filter
      stale_tagAged name_tagAged keepMinimalCount_def)

subsection \<open>The sample registry\<close>

lemma sample_simps:
  "regexp_Compile sampleExtern = sampleCompile"
  "sort_Sort sampleExtern = insertionSort"
  "client_Tags sampleExtern ''app'' = [''a'', ''b'', ''c'']"
  "client_TagInfo sampleExtern ''app'' ''a'' = Some (created (tagAged ''a'' 200))"
  "client_TagInfo sampleExtern ''app'' ''b'' = Some (created (tagAged ''b'' 40))"
  "client_TagInfo sampleExtern ''app'' ''c'' = Some (created (tagAged ''c'' 90))"
  "map_range sampleExtern m = m"
  by (simp_all add: sampleExtern_def)

lemma sampleCompile_simps:
  "sampleCompile ''.*'' = Some (\<lambda>s. True)"
  "sampleCompile ''['' = None"
  by (simp_all add: sampleCompile_def)

lemma tagAged_eq: "\<lparr>name = n, created = created (tagAged n a)\<rparr> = tagAged n a"
  by (simp add: tagAged_def)

lemma scanTags_sample:
  "scanTags sampleExtern ''app'' (catchAll kd kc) [''a'', ''b'', ''c''] ([], [])
     = Inr (unsortedGroup, [])"
  by (simp add: sample_simps sampleCompile_simps catchAll_def tagAged_eq unsortedGroup_def)

lemma scanTags_part000_sample:
  "scanTags_part000 sampleExtern ''app'' (catchAll_part000 kd kc) [''a'', ''b'', ''c''] ([], [])
     = Inr ([(\<lparr>TagsRegex_part000 = ''.*'', TagsKeepDays_part000 = kd,
                TagsKeepCount_part000 = kc\<rparr>, unsortedGroup)], [])"
  by (simp add: sample_simps sampleCompile_simps catchAll_part000_def tagAged_eq
      unsortedGroup_def)

lemma analyzeRepo_sample:
  "analyzeRepo sampleExtern ''library'' ''app'' [catchAll 30 1] scenarioNow dry txt
     = \<lparr>keepList = [''b''], purgeList = [''c'', ''a''],
        deleteTagCalls = deleteCalls dry [''c'', ''a''],
        logLines = purgeLog txt [''c'', ''a'']\<rparr>"
proof -
  have r: "resolveRepoRule sampleCompile ''app'' [catchAll 30 1] = Inr (Some (catchAll 30 1))"
    by (simp add: sampleCompile_simps catchAll_def)
  have c: "TagsKeepDays (catchAll 30 1) = 30" "TagsKeepCount (catchAll 30 1) = 1"
    by (simp_all add: catchAll_def)
  show ?thesis
    unfolding analyzeRepo_def repoFullName_def
    by (simp only: r Let_def refl if_True if_False not_True_eq_False sum.case option.case
        sample_simps scanTags_sample c partitionTags_unsorted prod.case append_Nil
        list.size length_Cons) simp
qed

lemma analyzeRepo_part000_sample:
  "analyzeRepo_part000 sampleExtern ''library'' ''app'' [catchAll_part000 30 1] scenarioNow dry txt
     = \<lparr>keepList = [''a''], purgeList = [''b'', ''c''],
        deleteTagCalls = deleteCalls_part000 dry ''app'' [''b'', ''c''],
        logLines = purgeLog_part000 dry txt ''app'' [''b'', ''c'']\<rparr>"
proof -
  have r: "resolveRepoRule_part000 sampleCompile ''app'' [catchAll_part000 30 1]
             = Inr (Some (catchAll_part000 30 1))"
    by (simp add: sampleCompile_simps catchAll_part000_def)
  have g: "partitionGroups insertionSort scenarioNow
             [(\<lparr>TagsRegex_part000 = ''.*'', TagsKeepDays_part000 = 30,
                TagsKeepCount_part000 = 1\<rparr>, unsortedGroup)] ([], [])
           = ([''b'', ''c''], [''a''])"
    by (simp add: partitionTags_part000_unsorted)
  show ?thesis
    unfolding analyzeRepo_part000_def repoFullName_def
    by (simp only: r Let_def refl if_True if_False not_True_eq_False sum.case option.case
        sample_simps scanTags_part000_sample g prod.case append_Nil
        list.size length_Cons) simp
qed

subsection \<open>The partition\<close>

text \<open>
  C1, as stated, fails. For the ages 1, 10, 40, 90 and 200 days with keepDays 30 and
  keepCount 4, neither variant returns the purge list \<open>{t200}\<close> with the keep list
  \<open>{t1, t10, t40, t90}\<close>.
\<close>

theorem scenarioB_counterexample:
  "\<not> (set (purge (partitionTags insertionSort scenarioNow 30 4 scenarioGroup)) = {''t200''}
      \<and> set (keep (partitionTags insertionSort scenarioNow 30 4 scenarioGroup))
          = {''t1'', ''t10'', ''t40'', ''t90''})
   \<and> \<not> (set (purge (partitionTags_part000 insertionSort scenarioNow 30 4 scenarioGroup))
          = {''t200''}
        \<and> set (keep (partitionTags_part000 insertionSort scenarioNow 30 4 scenarioGroup))
            = {''t1'', ''t10'', ''t40'', ''t90''})"
proof -
  have s: "insertionSort scenarioGroup = scenarioGroup"
    using sort_of_scenario [OF refl sortsNewestFirst_scenario] .
  show ?thesis
    by (simp add: partitionTags_lists partitionTags_part000_lists s length_scenario
        filterByDays_scenario keepMinimalCount_scenarioB)
qed

text \<open>
  C1, amended. In that scenario the age rule keeps \<open>t1\<close> and \<open>t10\<close> and tentatively
  purges \<open>t40\<close>, \<open>t90\<close> and \<open>t200\<close>, newest first. The two kept tags are fewer than
  keepCount 4, and the three purge candidates are not more than keepCount, so the second
  branch of the floor rescues all of them: the purge list is empty and the keep list is
  \<open>t1, t10, t40, t90, t200\<close>. For tasks.go this holds for every arrangement of the
  five tags and every sort that orders them newest first; for part\_000 the group is taken
  in the order the scenario lists it.
\<close>

theorem scenarioB_rescues_all:
  "(mset g = mset scenarioGroup \<and> sortsNewestFirst srt g \<longrightarrow>
      filterByDays scenarioNow 30 (srt g) ([], [])
        = ([''t40'', ''t90'', ''t200''], [''t1'', ''t10''])
      \<and> keep (partitionTags srt scenarioNow 30 4 g) = [''t1'', ''t10'', ''t40'', ''t90'', ''t200'']
      \<and> purge (partitionTags srt scenarioNow 30 4 g) = [])
   \<and> filterByDays scenarioNow 30 scenarioGroup ([], [])
        = ([''t40'', ''t90'', ''t200''], [''t1'', ''t10''])
   \<and> keep (partitionTags_part000 srt scenarioNow 30 4 scenarioGroup)
        = [''t1'', ''t10'', ''t40'', ''t90'', ''t200'']
   \<and> purge (partitionTags_part000 srt scenarioNow 30 4 scenarioGroup) = []"
proof (intro conjI impI)
  show "filterByDays scenarioNow 30 scenarioGroup ([], [])
          = ([''t40'', ''t90'', ''t200''], [''t1'', ''t10''])"
    by (rule filterByDays_scenario)
  show "keep (partitionTags_part000 srt scenarioNow 30 4 scenarioGroup)
          = [''t1'', ''t10'', ''t40'', ''t90'', ''t200'']"
    by (simp add: partitionTags_part000_lists length_scenario filterByDays_scenario
        keepMinimalCount_scenarioB)
  show "purge (partitionTags_part000 srt scenarioNow 30 4 scenarioGroup) = []"
    by (simp add: partitionTags_part000_lists length_scenario filterByDays_scenario
        keepMinimalCount_scenarioB)
next
  assume a: "mset g = mset scenarioGroup \<and> sortsNewestFirst srt g"
  then have s: "srt g = scenarioGroup"
    using sort_of_scenario by blast
  show "filterByDays scenarioNow 30 (srt g) ([], [])
          = ([''t40'', ''t90'', ''t200''], [''t1'', ''t10''])"
    by (simp only: s filterByDays_scenario)
  show "keep (partitionTags srt scenarioNow 30 4 g) = [''t1'', ''t10'', ''t40'', ''t90'', ''t200'']"
    by (simp add: partitionTags_lists s length_scenario filterByDays_scenario
        keepMinimalCount_scenarioB)
  show "purge (partitionTags srt scenarioNow 30 4 g) = []"
    by (simp add: partitionTags_lists s length_scenario filterByDays_scenario
        keepMinimalCount_scenarioB)
qed

text \<open>The amended C1 at the shuffled group, with the insertion sort.\<close>

theorem scenarioB_rescues_all_witness:
  "mset shuffledGroup = mset scenarioGroup \<and> sortsNewestFirst insertionSort shuffledGroup
   \<and> keep (partitionTags insertionSort scenarioNow 30 4 shuffledGroup)
        = [''t1'', ''t10'', ''t40'', ''t90'', ''t200'']
   \<and> purge (partitionTags insertionSort scenarioNow 30 4 shuffledGroup) = []"
proof -
  have m: "mset shuffledGroup = mset scenarioGroup"
    by (simp add: shuffledGroup_def scenarioGroup_def)
  show ?thesis
    using scenarioB_rescues_all [of shuffledGroup insertionSort] m sortsNewestFirst_shuffled
    by simp
qed

text \<open>
  C2. The partition is a complete split of the group: the keep list and the purge list
  together have the length of the group and hold exactly the names of its tags, each as
  often as the group does, so no name from outside the group is in either list; when the
  names of the group are distinct, no name is in both lists. For tasks.go this needs the
  sort to return a rearrangement of its input; part\_000 never reads the sorted slice.
\<close>

theorem partition_complete_split:
  "(sortsNewestFirst srt g \<longrightarrow>
      length (keep (partitionTags srt now keepDays keepCount g))
        + length (purge (partitionTags srt now keepDays keepCount g)) = length g
      \<and> mset (keep (partitionTags srt now keepDays keepCount g))
        + mset (purge (partitionTags srt now keepDays keepCount g)) = mset (map name g)
      \<and> set (keep (partitionTags srt now keepDays keepCount g))
        \<union> set (purge (partitionTags srt now keepDays keepCount g)) = name ` set g
      \<and> (distinct (map name g) \<longrightarrow>
           set (keep (partitionTags srt now keepDays keepCount g))
             \<inter> set (purge (partitionTags srt now keepDays keepCount g)) = {}))
   \<and> length (keep (partitionTags_part000 srt now keepDays keepCount g))
        + length (purge (partitionTags_part000 srt now keepDays keepCount g)) = length g
   \<and> mset (keep (partitionTags_part000 srt now keepDays keepCount g))
        + mset (purge (partitionTags_part000 srt now keepDays keepCount g)) = mset (map name g)
   \<and> set (keep (partitionTags_part000 srt now keepDays keepCount g))
        \<union> set (purge (partitionTags_part000 srt now keepDays keepCount g)) = name ` set g
   \<and> (distinct (map name g) \<longrightarrow>
        set (keep (partitionTags_part000 srt now keepDays keepCount g))
          \<inter> set (purge (partitionTags_part000 srt now keepDays keepCount g)) = {})"
proof -
  have a: "sortsNewestFirst srt g \<Longrightarrow>
      mset (keep (partitionTags srt now keepDays keepCount g))
        + mset (purge (partitionTags srt now keepDays keepCount g)) = mset (map name g)"
    by (rule partitionTags_mset) (simp add: sortsNewestFirst_def)
  note b = partitionTags_part000_mset [of srt now keepDays keepCount g]
  show ?thesis
    using split_facts [OF a] split_facts [OF b] a b by simp
qed

theorem partition_complete_split_witness:
  "sortsNewestFirst insertionSort shuffledGroup
   \<and> distinct (map name shuffledGroup)
   \<and> length (keep (partitionTags insertionSort scenarioNow 30 2 shuffledGroup))
        + length (purge (partitionTags insertionSort scenarioNow 30 2 shuffledGroup)) = 5
   \<and> set (keep (partitionTags insertionSort scenarioNow 30 2 shuffledGroup))
        \<inter> set (purge (partitionTags insertionSort scenarioNow 30 2 shuffledGroup)) = {}
   \<and> set (keep (partitionTags_part000 insertionSort scenarioNow 30 2 shuffledGroup))
        \<inter> set (purge (partitionTags_part000 insertionSort scenarioNow 30 2 shuffledGroup)) = {}"
proof -
  have d: "distinct (map name shuffledGroup)"
    by (simp add: shuffledGroup_def tagAged_def)
  have l: "length shuffledGroup = 5"
    by (simp add: shuffledGroup_def)
  show ?thesis
    using partition_complete_split [of insertionSort shuffledGroup scenarioNow 30 2]
      sortsNewestFirst_shuffled d l by simp
qed

text \<open>
  C3. For a keepCount that is not negative, the keep list has at least
  \<open>min keepCount (length g)\<close> entries, whatever the ages and the current time are.
\<close>

theorem keep_at_least_floor:
  "0 \<le> keepCount \<longrightarrow>
     (sortsNewestFirst srt g \<longrightarrow>
        min keepCount (int (length g))
          \<le> int (length (keep (partitionTags srt now keepDays keepCount g))))
     \<and> min keepCount (int (length g))
          \<le> int (length (keep (partitionTags_part000 srt now keepDays keepCount g)))"
proof (intro impI conjI)
  assume k: "0 \<le> keepCount"
  show "min keepCount (int (length g))
          \<le> int (length (keep (partitionTags_part000 srt now keepDays keepCount g)))"
    using core_floor [OF k, of g now keepDays] by (simp add: partitionTags_part000_lists)
  assume "sortsNewestFirst srt g"
  then have l: "length (srt g) = length g" by (rule sortsNewestFirst_length)
  show "min keepCount (int (length g))
          \<le> int (length (keep (partitionTags srt now keepDays keepCount g)))"
    using core_floor [OF k, of "srt g" now keepDays] l by (simp add: partitionTags_lists)
qed

theorem keep_at_least_floor_witness:
  "(0::int) \<le> 4 \<and> sortsNewestFirst insertionSort shuffledGroup
   \<and> min 4 (int (length shuffledGroup))
        \<le> int (length (keep (partitionTags insertionSort scenarioNow 30 4 shuffledGroup)))
   \<and> min 4 (int (length shuffledGroup))
        \<le> int (length (keep (partitionTags_part000 insertionSort scenarioNow 30 4 shuffledGroup)))"
  using keep_at_least_floor [of 4 insertionSort shuffledGroup scenarioNow 30]
    sortsNewestFirst_shuffled by simp

text \<open>
  C4. With keepCount 0 nothing is rescued: the purge list is the names of the tags whose
  age in days, as the code computes it in \<^verbatim>\<open>float64\<close>, exceeds keepDays, and the keep
  list is the names of the others, in the order of the slice the loops run over (the
  sorted slice in tasks.go, the unsorted one in part\_000). When the sort returns a
  rearrangement of the group, these are the stale and the fresh tags of the group itself.
\<close>

theorem no_floor_when_keepCount_zero:
  "purge (partitionTags srt now keepDays 0 g) = map name (filter (stale now keepDays) (srt g))
   \<and> keep (partitionTags srt now keepDays 0 g)
       = map name (filter (\<lambda>t. \<not> stale now keepDays t) (srt g))
   \<and> (sortsNewestFirst srt g \<longrightarrow>
        mset (purge (partitionTags srt now keepDays 0 g))
          = mset (map name (filter (stale now keepDays) g))
        \<and> mset (keep (partitionTags srt now keepDays 0 g))
          = mset (map name (filter (\<lambda>t. \<not> stale now keepDays t) g)))
   \<and> purge (partitionTags_part000 srt now keepDays 0 g)
       = map name (filter (stale now keepDays) g)
   \<and> keep (partitionTags_part000 srt now keepDays 0 g)
       = map name (filter (\<lambda>t. \<not> stale now keepDays t) g)"
proof -
  have p: "purge (partitionTags srt now keepDays 0 g)
             = map name (filter (stale now keepDays) (srt g))"
    by (simp add: partitionTags_lists filterByDays_filter keepMinimalCount_no_floor)
  have k: "keep (partitionTags srt now keepDays 0 g)
             = map name (filter (\<lambda>t. \<not> stale now keepDays t) (srt g))"
    by (simp add: partitionTags_lists filterByDays_filter keepMinimalCount_no_floor)
  have p0: "purge (partitionTags_part000 srt now keepDays 0 g)
              = map name (filter (stale now keepDays) g)"
    by (simp add: partitionTags_part000_lists filterByDays_filter keepMinimalCount_no_floor)
  have k0: "keep (partitionTags_part000 srt now keepDays 0 g)
              = map name (filter (\<lambda>t. \<not> stale now keepDays t) g)"
    by (simp add: partitionTags_part000_lists filterByDays_filter keepMinimalCount_no_floor)
  show ?thesis
    using p k p0 k0 sortsNewestFirst_filter [of srt g name] by simp
qed

theorem no_floor_when_keepCount_zero_witness:
  "sortsNewestFirst insertionSort shuffledGroup
   \<and> purge (partitionTags insertionSort scenarioNow 30 0 shuffledGroup)
       = [''t40'', ''t90'', ''t200'']
   \<and> keep (partitionTags insertionSort scenarioNow 30 0 shuffledGroup) = [''t1'', ''t10'']
   \<and> purge (partitionTags_part000 insertionSort scenarioNow 30 0 shuffledGroup)
       = [''t90'', ''t200'', ''t40'']
   \<and> keep (partitionTags_part000 insertionSort scenarioNow 30 0 shuffledGroup)
       = [''t1'', ''t10'']
   \<and> sortsNewestFirst insertionSort [nearlyThousandDays]
   \<and> purge (partitionTags insertionSort scenarioNow 999 0 [nearlyThousandDays]) = [''x'']
   \<and> keep (partitionTags insertionSort scenarioNow 999 0 [nearlyThousandDays]) = []
   \<and> purge (partitionTags_part000 insertionSort scenarioNow 999 0 [nearlyThousandDays]) = [''x'']
   \<and> keep (partitionTags_part000 insertionSort scenarioNow 999 0 [nearlyThousandDays]) = []"
proof -
  have a: "map name (filter (stale scenarioNow 30) scenarioGroup) = [''t40'', ''t90'', ''t200'']"
    by (simp add: scenarioGroup_def stale_tagAged name_tagAged)
  have b: "map name (filter (\<lambda>t. \<not> stale scenarioNow 30 t) scenarioGroup) = [''t1'', ''t10'']"
    by (simp add: scenarioGroup_def stale_tagAged name_tagAged)
  have c: "map name (filter (stale scenarioNow 30) shuffledGroup) = [''t90'', ''t200'', ''t40'']"
    by (simp add: shuffledGroup_def stale_tagAged name_tagAged)
  have d: "map name (filter (\<lambda>t. \<not> stale scenarioNow 30 t) shuffledGroup) = [''t1'', ''t10'']"
    by (simp add: shuffledGroup_def stale_tagAged name_tagAged)
  have s: "stale scenarioNow 999 nearlyThousandDays"
    by (simp add: stale_def nearlyThousandDays_def deltaDays_one_ns_short)
  have i: "insertionSort [nearlyThousandDays] = [nearlyThousandDays]"
    by (simp add: insertionSort_def)
  have n: "name nearlyThousandDays = ''x''"
    by (simp add: nearlyThousandDays_def)
  have first: "purge (partitionTags insertionSort scenarioNow 30 0 shuffledGroup)
       = [''t40'', ''t90'', ''t200'']
   \<and> keep (partitionTags insertionSort scenarioNow 30 0 shuffledGroup) = [''t1'', ''t10'']
   \<and> purge (partitionTags_part000 insertionSort scenarioNow 30 0 shuffledGroup)
       = [''t90'', ''t200'', ''t40'']
   \<and> keep (partitionTags_part000 insertionSort scenarioNow 30 0 shuffledGroup)
       = [''t1'', ''t10'']"
    using no_floor_when_keepCount_zero [of insertionSort scenarioNow 30 shuffledGroup]
      sortsNewestFirst_shuffled
    by (simp only: insertionSort_shuffled a b c d simp_thms)
  have second: "purge (partitionTags insertionSort scenarioNow 999 0 [nearlyThousandDays]) = [''x'']
   \<and> keep (partitionTags insertionSort scenarioNow 999 0 [nearlyThousandDays]) = []
   \<and> purge (partitionTags_part000 insertionSort scenarioNow 999 0 [nearlyThousandDays]) = [''x'']
   \<and> keep (partitionTags_part000 insertionSort scenarioNow 999 0 [nearlyThousandDays]) = []"
    using no_floor_when_keepCount_zero [of insertionSort scenarioNow 999 "[nearlyThousandDays]"]
    by (simp add: i s n)
  show ?thesis
    using first second sortsNewestFirst_shuffled
      sortsNewestFirst_insertionSort [of "[nearlyThousandDays]"] by simp
qed

text \<open>
  tasks.go does what C5 says: when the floor triggers with more purge candidates than
  keepCount, the rescued entries are the first keepCount candidates of the sorted slice,
  and none of them is older than a tag that stays on the purge list.
\<close>

lemma tasks_go_rescues_newest:
  assumes s: "sortsNewestFirst srt g"
    and f: "int (length (srt g)) - int (length (filter (stale now kd) (srt g))) < kc"
    and m: "kc < int (length (filter (stale now kd) (srt g)))"
  shows "keep (partitionTags srt now kd kc g)
           = map name (filter (\<lambda>t. \<not> stale now kd t) (srt g))
             @ map name (take (nat kc) (filter (stale now kd) (srt g)))"
    and "purge (partitionTags srt now kd kc g)
           = map name (drop (nat kc) (filter (stale now kd) (srt g)))"
    and "\<forall>a\<in>set (take (nat kc) (filter (stale now kd) (srt g))).
           \<forall>b\<in>set (drop (nat kc) (filter (stale now kd) (srt g))). created b \<le> created a"
proof -
  let ?c = "filter (stale now kd) (srt g)"
  show "keep (partitionTags srt now kd kc g)
           = map name (filter (\<lambda>t. \<not> stale now kd t) (srt g)) @ map name (take (nat kc) ?c)"
    using f m by (simp add: partitionTags_lists filterByDays_filter keepMinimalCount_def take_map)
  show "purge (partitionTags srt now kd kc g) = map name (drop (nat kc) ?c)"
    using f m by (simp add: partitionTags_lists filterByDays_filter keepMinimalCount_def drop_map)
  have "sorted_wrt (\<lambda>a b. \<not> Less b a) ?c"
    using s by (simp add: sortsNewestFirst_def sorted_wrt_filter)
  then have "sorted_wrt (\<lambda>a b. \<not> Less b a) (take (nat kc) ?c @ drop (nat kc) ?c)"
    by simp
  then show "\<forall>a\<in>set (take (nat kc) ?c). \<forall>b\<in>set (drop (nat kc) ?c). created b \<le> created a"
    by (simp only: sorted_wrt_append) (fastforce simp: Less_def not_less)
qed

text \<open>
  C5 on part\_000. The group \<open>a, b, c\<close> with ages 200, 40 and 90 days, keepDays 30 and
  keepCount 1: all three tags are purge candidates and one is rescued. part\_000 sorts a
  copy of the group (\<open>b, c, a\<close>) but builds the purge candidates from the unsorted
  slice, so it rescues \<open>a\<close>, the oldest tag, and purges \<open>b\<close> and \<open>c\<close>. tasks.go on
  the same group rescues \<open>b\<close>, the newest. The same result comes out of
  \<open>analyzeRepo_part000\<close> on a registry whose \<^verbatim>\<open>client.Tags\<close> lists the tags by name.
\<close>

theorem part000_rescues_oldest:
  "keep (partitionTags_part000 insertionSort scenarioNow 30 1 unsortedGroup) = [''a'']
   \<and> purge (partitionTags_part000 insertionSort scenarioNow 30 1 unsortedGroup) = [''b'', ''c'']
   \<and> allSorted (partitionTags_part000 insertionSort scenarioNow 30 1 unsortedGroup)
        = [tagAged ''b'' 40, tagAged ''c'' 90, tagAged ''a'' 200]
   \<and> keep (partitionTags insertionSort scenarioNow 30 1 unsortedGroup) = [''b'']
   \<and> purge (partitionTags insertionSort scenarioNow 30 1 unsortedGroup) = [''c'', ''a'']
   \<and> keepList (analyzeRepo_part000 sampleExtern ''library'' ''app'' [catchAll_part000 30 1]
        scenarioNow True ''skipped'') = [''a'']
   \<and> purgeList (analyzeRepo_part000 sampleExtern ''library'' ''app'' [catchAll_part000 30 1]
        scenarioNow True ''skipped'') = [''b'', ''c'']"
  by (simp add: partitionTags_unsorted partitionTags_part000_unsorted analyzeRepo_part000_sample)
    (simp add: partitionTags_part000_def insertionSort_unsorted Let_def)

subsection \<open>Dry run and delete calls\<close>

lemma deleteCalls_dry: "deleteCalls True p = []"
  by (simp add: deleteCalls_def)

lemma deleteCalls_part000_dry: "deleteCalls_part000 True repo p = []"
  by (simp add: deleteCalls_part000_def)

lemma deleteCalls_part000_wet: "deleteCalls_part000 False repo p = map (Pair repo) p"
  by (induction p) (simp_all add: deleteCalls_part000_def)

lemma analyzeRepo_lists:
  "keepList (analyzeRepo x ns r cfgs now d t) = keepList (analyzeRepo x ns r cfgs now d' t')"
  "purgeList (analyzeRepo x ns r cfgs now d t) = purgeList (analyzeRepo x ns r cfgs now d' t')"
  by (simp_all add: analyzeRepo_def Let_def returnEarly_def
      split: sum.splits option.splits prod.splits)

lemma analyzeRepo_part000_lists:
  "keepList (analyzeRepo_part000 x ns r cfgs now d t)
     = keepList (analyzeRepo_part000 x ns r cfgs now d' t')"
  "purgeList (analyzeRepo_part000 x ns r cfgs now d t)
     = purgeList (analyzeRepo_part000 x ns r cfgs now d' t')"
  by (simp_all add: analyzeRepo_part000_def Let_def returnEarly_def
      split: sum.splits option.splits prod.splits)

lemma analyzeRepo_dry_deletes: "deleteTagCalls (analyzeRepo x ns r cfgs now True t) = []"
  by (simp add: analyzeRepo_def Let_def returnEarly_def deleteCalls_dry
      split: sum.splits option.splits prod.splits)

lemma analyzeRepo_part000_dry_deletes:
  "deleteTagCalls (analyzeRepo_part000 x ns r cfgs now True t) = []"
  by (simp add: analyzeRepo_part000_def Let_def returnEarly_def deleteCalls_part000_dry
      split: sum.splits option.splits prod.splits)

lemma PurgeOldTags_lists:
  "map keepList (PurgeOldTags x d kd kc pc cat now)
     = map keepList (PurgeOldTags x d' kd kc pc cat now)"
  "map purgeList (PurgeOldTags x d kd kc pc cat now)
     = map purgeList (PurgeOldTags x d' kd kc pc cat now)"
  unfolding PurgeOldTags_def Let_def
  by (induction cat) (auto intro: analyzeRepo_lists)

lemma PurgeOldTags_part000_lists:
  "map keepList (PurgeOldTags_part000 x d kd kc pc cat now)
     = map keepList (PurgeOldTags_part000 x d' kd kc pc cat now)"
  "map purgeList (PurgeOldTags_part000 x d kd kc pc cat now)
     = map purgeList (PurgeOldTags_part000 x d' kd kc pc cat now)"
  unfolding PurgeOldTags_part000_def Let_def
  by (induction cat) (auto intro: analyzeRepo_part000_lists)

lemma PurgeOldTags_dry_deletes:
  "concat (map deleteTagCalls (PurgeOldTags x True kd kc pc cat now)) = []"
  by (induction cat) (auto simp: PurgeOldTags_def Let_def analyzeRepo_dry_deletes)

lemma PurgeOldTags_part000_dry_deletes:
  "concat (map deleteTagCalls (PurgeOldTags_part000 x True kd kc pc cat now)) = []"
  by (induction cat) (auto simp: PurgeOldTags_part000_def Let_def analyzeRepo_part000_dry_deletes)

lemma partitionGroups_acc:
  "partitionGroups srt now gs (p, k)
     = (p @ fst (partitionGroups srt now gs ([], [])), k @ snd (partitionGroups srt now gs ([], [])))"
proof (induction gs arbitrary: p k)
  case Nil
  then show ?case by simp
next
  case (Cons g gs)
  obtain tc ts where g: "g = (tc, ts)" by (cases g)
  let ?d = "partitionTags_part000 srt now (TagsKeepDays_part000 tc) (TagsKeepCount_part000 tc) ts"
  have "partitionGroups srt now (g # gs) (p, k)
          = partitionGroups srt now gs (p @ purge ?d, k @ keep ?d)"
    by (simp add: g Let_def)
  also have "\<dots> = ((p @ purge ?d) @ fst (partitionGroups srt now gs ([], [])),
                    (k @ keep ?d) @ snd (partitionGroups srt now gs ([], [])))"
    by (rule Cons.IH)
  finally have a: "partitionGroups srt now (g # gs) (p, k)
      = (p @ purge ?d @ fst (partitionGroups srt now gs ([], [])),
         k @ keep ?d @ snd (partitionGroups srt now gs ([], [])))"
    by simp
  have "partitionGroups srt now (g # gs) ([], [])
          = partitionGroups srt now gs ([] @ purge ?d, [] @ keep ?d)"
    by (simp add: g Let_def)
  also have "\<dots> = (([] @ purge ?d) @ fst (partitionGroups srt now gs ([], [])),
                    ([] @ keep ?d) @ snd (partitionGroups srt now gs ([], [])))"
    by (rule Cons.IH)
  finally have b: "partitionGroups srt now (g # gs) ([], [])
      = (purge ?d @ fst (partitionGroups srt now gs ([], [])),
         keep ?d @ snd (partitionGroups srt now gs ([], [])))"
    by simp
  show ?case by (simp only: a b fst_conv snd_conv)
qed

lemma partitionGroups_Cons:
  "partitionGroups srt now ((tc, ts) # gs) ([], [])
     = (purge (partitionTags_part000 srt now (TagsKeepDays_part000 tc)
                 (TagsKeepCount_part000 tc) ts)
          @ fst (partitionGroups srt now gs ([], [])),
        keep (partitionTags_part000 srt now (TagsKeepDays_part000 tc)
                (TagsKeepCount_part000 tc) ts)
          @ snd (partitionGroups srt now gs ([], [])))"
  using partitionGroups_acc [of srt now gs
      "purge (partitionTags_part000 srt now (TagsKeepDays_part000 tc)
                (TagsKeepCount_part000 tc) ts)"
      "keep (partitionTags_part000 srt now (TagsKeepDays_part000 tc)
                (TagsKeepCount_part000 tc) ts)"]
  by (simp add: Let_def)

lemma partitionGroups_purge_set:
  "set (fst (partitionGroups srt now gs ([], [])))
     = (\<Union>g\<in>set gs. set (purge (partitionTags_part000 srt now
          (TagsKeepDays_part000 (fst g)) (TagsKeepCount_part000 (fst g)) (snd g))))"
proof (induction gs)
  case Nil
  show ?case by simp
next
  case (Cons g gs)
  obtain tc ts where g: "g = (tc, ts)" by (cases g)
  show ?case
    unfolding g using Cons.IH by (simp only: partitionGroups_Cons) simp
qed

lemma partitionGroups_keep_set:
  "set (snd (partitionGroups srt now gs ([], [])))
     = (\<Union>g\<in>set gs. set (keep (partitionTags_part000 srt now
          (TagsKeepDays_part000 (fst g)) (TagsKeepCount_part000 (fst g)) (snd g))))"
proof (induction gs)
  case Nil
  show ?case by simp
next
  case (Cons g gs)
  obtain tc ts where g: "g = (tc, ts)" by (cases g)
  show ?case
    unfolding g using Cons.IH by (simp only: partitionGroups_Cons) simp
qed

text \<open>
  part\_000: the order in which \<^verbatim>\<open>range\<close> visits the groups changes the order of the two
  lists, not their members.
\<close>

lemma partitionGroups_order_irrelevant:
  assumes "set gs = set gs'"
  shows "set (fst (partitionGroups srt now gs ([], []))) = set (fst (partitionGroups srt now gs' ([], [])))"
    and "set (snd (partitionGroups srt now gs ([], []))) = set (snd (partitionGroups srt now gs' ([], [])))"
  using assms by (simp_all add: partitionGroups_purge_set partitionGroups_keep_set)

lemma extern_update_simps:
  "regexp_Compile (x\<lparr>map_range := f\<rparr>) = regexp_Compile x"
  "sort_Sort (x\<lparr>map_range := f\<rparr>) = sort_Sort x"
  "client_Tags (x\<lparr>map_range := f\<rparr>) = client_Tags x"
  "client_TagInfo (x\<lparr>map_range := f\<rparr>) = client_TagInfo x"
  by simp_all

lemma scanTags_part000_range_irrelevant:
  "scanTags_part000 (x\<lparr>map_range := f\<rparr>) repo c tags acc = scanTags_part000 x repo c tags acc"
proof (induction tags arbitrary: acc)
  case Nil
  then show ?case by (cases acc) simp
next
  case (Cons t ts)
  then show ?case by (cases acc) (simp split: sum.splits option.splits)
qed

lemma analyzeRepo_part000_range_irrelevant:
  assumes "\<forall>m. set (map_range x m) = set m" "\<forall>m. set (f m) = set m"
  shows "set (keepList (analyzeRepo_part000 (x\<lparr>map_range := f\<rparr>) ns r cfgs now d t))
           = set (keepList (analyzeRepo_part000 x ns r cfgs now d' t'))"
    and "set (purgeList (analyzeRepo_part000 (x\<lparr>map_range := f\<rparr>) ns r cfgs now d t))
           = set (purgeList (analyzeRepo_part000 x ns r cfgs now d' t'))"
proof -
  have e: "\<And>m. set (f m) = set (map_range x m)" using assms by simp
  show "set (keepList (analyzeRepo_part000 (x\<lparr>map_range := f\<rparr>) ns r cfgs now d t))
           = set (keepList (analyzeRepo_part000 x ns r cfgs now d' t'))"
    by (auto simp: analyzeRepo_part000_def Let_def returnEarly_def
        scanTags_part000_range_irrelevant partitionGroups_order_irrelevant(2) [OF e]
        split: sum.splits option.splits prod.splits)
  show "set (purgeList (analyzeRepo_part000 (x\<lparr>map_range := f\<rparr>) ns r cfgs now d t))
           = set (purgeList (analyzeRepo_part000 x ns r cfgs now d' t'))"
    by (auto simp: analyzeRepo_part000_def Let_def returnEarly_def
        scanTags_part000_range_irrelevant partitionGroups_order_irrelevant(1) [OF e]
        split: sum.splits option.splits prod.splits)
qed

text \<open>
  C6. The dry-run flag does not reach the decision: for the same collaborators,
  configuration and current time, \<^verbatim>\<open>analyzeRepo\<close> ends with the same keep list and the same
  purge list with and without it, in both variants, and so does every repository of a
  whole run. In part\_000 the two runs may visit the groups of the map in different
  orders; the keep and purge lists then still have the same members. In dry-run mode no
  \<^verbatim>\<open>DeleteTag\<close> call is made.
\<close>

theorem dry_run_same_decision:
  "keepList (analyzeRepo x ns r cfgs now True t) = keepList (analyzeRepo x ns r cfgs now False t')
   \<and> purgeList (analyzeRepo x ns r cfgs now True t)
       = purgeList (analyzeRepo x ns r cfgs now False t')
   \<and> deleteTagCalls (analyzeRepo x ns r cfgs now True t) = []
   \<and> keepList (analyzeRepo_part000 x ns r cfgs0 now True t)
       = keepList (analyzeRepo_part000 x ns r cfgs0 now False t')
   \<and> purgeList (analyzeRepo_part000 x ns r cfgs0 now True t)
       = purgeList (analyzeRepo_part000 x ns r cfgs0 now False t')
   \<and> deleteTagCalls (analyzeRepo_part000 x ns r cfgs0 now True t) = []
   \<and> ((\<forall>m. set (map_range x m) = set m) \<and> (\<forall>m. set (f m) = set m) \<longrightarrow>
        set (keepList (analyzeRepo_part000 (x\<lparr>map_range := f\<rparr>) ns r cfgs0 now True t))
          = set (keepList (analyzeRepo_part000 x ns r cfgs0 now False t'))
        \<and> set (purgeList (analyzeRepo_part000 (x\<lparr>map_range := f\<rparr>) ns r cfgs0 now True t))
          = set (purgeList (analyzeRepo_part000 x ns r cfgs0 now False t')))
   \<and> map keepList (PurgeOldTags x True kd kc pc cat now)
       = map keepList (PurgeOldTags x False kd kc pc cat now)
   \<and> map purgeList (PurgeOldTags x True kd kc pc cat now)
       = map purgeList (PurgeOldTags x False kd kc pc cat now)
   \<and> concat (map deleteTagCalls (PurgeOldTags x True kd kc pc cat now)) = []
   \<and> map keepList (PurgeOldTags_part000 x True kd kc pc0 cat now)
       = map keepList (PurgeOldTags_part000 x False kd kc pc0 cat now)
   \<and> map purgeList (PurgeOldTags_part000 x True kd kc pc0 cat now)
       = map purgeList (PurgeOldTags_part000 x False kd kc pc0 cat now)
   \<and> concat (map deleteTagCalls (PurgeOldTags_part000 x True kd kc pc0 cat now)) = []"
proof -
  have o: "(\<forall>m. set (map_range x m) = set m) \<and> (\<forall>m. set (f m) = set m) \<longrightarrow>
        set (keepList (analyzeRepo_part000 (x\<lparr>map_range := f\<rparr>) ns r cfgs0 now True t))
          = set (keepList (analyzeRepo_part000 x ns r cfgs0 now False t'))
        \<and> set (purgeList (analyzeRepo_part000 (x\<lparr>map_range := f\<rparr>) ns r cfgs0 now True t))
          = set (purgeList (analyzeRepo_part000 x ns r cfgs0 now False t'))"
    using analyzeRepo_part000_range_irrelevant [of x f ns r cfgs0 now True t False t'] by blast
  show ?thesis
    using analyzeRepo_lists [of x ns r cfgs now True t False t']
      analyzeRepo_part000_lists [of x ns r cfgs0 now True t False t']
      PurgeOldTags_lists [of x True kd kc pc cat now False]
      PurgeOldTags_part000_lists [of x True kd kc pc0 cat now False] o
    by (simp only: analyzeRepo_dry_deletes analyzeRepo_part000_dry_deletes
        PurgeOldTags_dry_deletes PurgeOldTags_part000_dry_deletes simp_thms)
qed

theorem dry_run_same_decision_witness:
  "(\<forall>m. set (map_range sampleExtern m) = set m) \<and> (\<forall>m. set (rev m) = set m)
   \<and> set (keepList (analyzeRepo_part000 (sampleExtern\<lparr>map_range := rev\<rparr>) ''library'' ''app''
             [catchAll_part000 30 1] scenarioNow True ''skipped''))
       = set (keepList (analyzeRepo_part000 sampleExtern ''library'' ''app''
             [catchAll_part000 30 1] scenarioNow False []))
   \<and> set (purgeList (analyzeRepo_part000 (sampleExtern\<lparr>map_range := rev\<rparr>) ''library'' ''app''
             [catchAll_part000 30 1] scenarioNow True ''skipped''))
       = set (purgeList (analyzeRepo_part000 sampleExtern ''library'' ''app''
             [catchAll_part000 30 1] scenarioNow False []))
   \<and> deleteTagCalls (analyzeRepo_part000 sampleExtern ''library'' ''app''
             [catchAll_part000 30 1] scenarioNow True ''skipped'') = []
   \<and> deleteTagCalls (analyzeRepo sampleExtern ''library'' ''app''
             [catchAll 30 1] scenarioNow True ''skipped'') = []"
proof -
  have a: "\<forall>m. set (map_range sampleExtern m) = set m"
    by (simp add: sample_simps)
  have b: "\<forall>m::(TagConfig \<times> tagData list) list. set (rev m) = set m"
    by simp
  show ?thesis
    using dry_run_same_decision [of sampleExtern "''library''" "''app''" "[catchAll 30 1]"
        scenarioNow "''skipped''" "[]" "[catchAll_part000 30 1]" rev] a b
    by simp
qed

text \<open>
  tasks.go: the delete calls are all pairs of purge-listed tags, so the repository
  argument of every call is a tag name.
\<close>

lemma deleteCalls_pairs:
  "set (deleteCalls False p) = set p \<times> set p"
  "length (deleteCalls False p) = length p * length p"
  by (auto simp: deleteCalls_def length_concat comp_def sum_list_triv)

text \<open>
  part\_000 does what C7 says: outside dry-run mode it makes one call for each entry of
  the purge list, with the full name of the repository.
\<close>

lemma analyzeRepo_part000_deletes:
  "deleteTagCalls (analyzeRepo_part000 x ns r cfgs now False t)
     = map (Pair (repoFullName ns r)) (purgeList (analyzeRepo_part000 x ns r cfgs now False t))"
  by (simp add: analyzeRepo_part000_def Let_def returnEarly_def deleteCalls_part000_wet
      split: sum.splits option.splits prod.splits)

text \<open>
  C7 on tasks.go. One repository \<open>app\<close> with the purge list \<open>c, a\<close>, not in dry-run
  mode: tasks.go makes four \<^verbatim>\<open>DeleteTag\<close> calls, one for every pair of purge-listed tags,
  and the repository argument of each is a tag name, never \<open>app\<close>. part\_000 on the same
  registry makes one call for each tag of its purge list, on \<open>app\<close>.
\<close>

theorem tasks_go_deletes_misaddressed:
  "map purgeList (PurgeOldTags sampleExtern False 30 1 [] [(''library'', [''app''])] scenarioNow)
     = [[''c'', ''a'']]
   \<and> map deleteTagCalls
        (PurgeOldTags sampleExtern False 30 1 [] [(''library'', [''app''])] scenarioNow)
     = [[(''c'', ''c''), (''c'', ''a''), (''a'', ''c''), (''a'', ''a'')]]
   \<and> map deleteTagCalls
        (PurgeOldTags_part000 sampleExtern False 30 1 [] [(''library'', [''app''])] scenarioNow)
     = [[(''app'', ''b''), (''app'', ''c'')]]"
  by (simp add: PurgeOldTags_def PurgeOldTags_part000_def analyzeRepo_sample
      analyzeRepo_part000_sample deleteCalls_def deleteCalls_part000_def)

subsection \<open>Regular expressions that do not compile\<close>

text \<open>
  The search for the repository rule ends with an error exactly when some rule has a
  regex that does not compile and every rule before it compiles and does not match.
\<close>

lemma resolveRepoRule_error_iff:
  "(\<exists>e. resolveRepoRule compile repo cfgs = Inl e) \<longleftrightarrow>
   (\<exists>pre bad post. cfgs = pre @ bad # post \<and> compile (RepoRegex bad) = None
      \<and> (\<forall>c\<in>set pre. \<exists>m. compile (RepoRegex c) = Some m \<and> \<not> m repo))"
proof (induction cfgs)
  case Nil
  then show ?case by simp
next
  case (Cons c cfgs)
  show ?case
  proof (cases "compile (RepoRegex c)")
    case None
    have "c # cfgs = [] @ c # cfgs \<and> compile (RepoRegex c) = None
            \<and> (\<forall>c'\<in>set []. \<exists>m. compile (RepoRegex c') = Some m \<and> \<not> m repo)"
      using None by simp
    then have "\<exists>pre bad post. c # cfgs = pre @ bad # post \<and> compile (RepoRegex bad) = None
      \<and> (\<forall>c\<in>set pre. \<exists>m. compile (RepoRegex c) = Some m \<and> \<not> m repo)"
      by blast
    then show ?thesis using None by simp
  next
    case (Some m)
    show ?thesis
    proof (cases "m repo")
      case True
      have "\<not> (\<exists>pre bad post. c # cfgs = pre @ bad # post \<and> compile (RepoRegex bad) = None
          \<and> (\<forall>c\<in>set pre. \<exists>m. compile (RepoRegex c) = Some m \<and> \<not> m repo))"
      proof
        assume "\<exists>pre bad post. c # cfgs = pre @ bad # post \<and> compile (RepoRegex bad) = None
          \<and> (\<forall>c\<in>set pre. \<exists>m. compile (RepoRegex c) = Some m \<and> \<not> m repo)"
        then obtain pre bad post where h: "c # cfgs = pre @ bad # post"
          "compile (RepoRegex bad) = None"
          "\<forall>c\<in>set pre. \<exists>m. compile (RepoRegex c) = Some m \<and> \<not> m repo" by blast
        show False
        proof (cases pre)
          case Nil
          then show False using h Some by simp
        next
          case (Cons p ps)
          then have "p = c" using h by simp
          then show False using h Cons Some True by auto
        qed
      qed
      then show ?thesis using Some True by simp
    next
      case False
      have "(\<exists>pre bad post. c # cfgs = pre @ bad # post \<and> compile (RepoRegex bad) = None
          \<and> (\<forall>c\<in>set pre. \<exists>m. compile (RepoRegex c) = Some m \<and> \<not> m repo))
        \<longleftrightarrow> (\<exists>pre bad post. cfgs = pre @ bad # post \<and> compile (RepoRegex bad) = None
          \<and> (\<forall>c\<in>set pre. \<exists>m. compile (RepoRegex c) = Some m \<and> \<not> m repo))"
        (is "?L \<longleftrightarrow> ?R")
      proof
        assume ?L
        then obtain pre bad post where h: "c # cfgs = pre @ bad # post"
          "compile (RepoRegex bad) = None"
          "\<forall>c\<in>set pre. \<exists>m. compile (RepoRegex c) = Some m \<and> \<not> m repo" by blast
        show ?R
        proof (cases pre)
          case Nil
          then show ?thesis using h Some by simp
        next
          case (Cons p ps)
          then have "cfgs = ps @ bad # post" using h by simp
          moreover have "\<forall>c\<in>set ps. \<exists>m. compile (RepoRegex c) = Some m \<and> \<not> m repo"
            using h Cons by simp
          ultimately show ?thesis using h(2) by blast
        qed
      next
        assume ?R
        then obtain pre bad post where h: "cfgs = pre @ bad # post"
          "compile (RepoRegex bad) = None"
          "\<forall>c\<in>set pre. \<exists>m. compile (RepoRegex c) = Some m \<and> \<not> m repo" by blast
        have "c # cfgs = (c # pre) @ bad # post" using h by simp
        moreover have "\<forall>c'\<in>set (c # pre). \<exists>m. compile (RepoRegex c') = Some m \<and> \<not> m repo"
          using h Some False by simp
        ultimately show ?L using h(2) by blast
      qed
      then show ?thesis using Some False Cons.IH by simp
    qed
  qed
qed

lemma scanTags_part000_bad_regex:
  "\<exists>tag\<in>set tags. \<exists>e. resolveTagRule (regexp_Compile x) tag (Tags_part000 c) = Inl e \<Longrightarrow>
   \<exists>lg' tag'. scanTags_part000 x repo c tags (acc, lg) = Inl (lg' @ [SkipTagRegex repo tag'])"
proof (induction tags arbitrary: acc lg)
  case Nil
  then show ?case by simp
next
  case (Cons t ts)
  show ?case
  proof (cases "resolveTagRule (regexp_Compile x) t (Tags_part000 c)")
    case (Inl e)
    then show ?thesis by auto
  next
    case (Inr o)
    then have rest: "\<exists>tag\<in>set ts. \<exists>e. resolveTagRule (regexp_Compile x) tag (Tags_part000 c) = Inl e"
      using Cons.prems by auto
    show ?thesis
      using Inr Cons.IH [OF rest] by (auto split: option.splits)
  qed
qed

lemma PurgeOldTags_continues:
  "PurgeOldTags x d kd kc pc (before @ (ns, rs1 @ r # rs2) # after) now
     = PurgeOldTags x d kd kc pc (before @ [(ns, rs1)]) now
       @ analyzeRepo x ns r (pc @ [catchAll kd kc]) now d (if d then ''skipped'' else [])
       # PurgeOldTags x d kd kc pc ((ns, rs2) # after) now"
  by (simp add: PurgeOldTags_def Let_def)

lemma PurgeOldTags_part000_continues:
  "PurgeOldTags_part000 x d kd kc pc (before @ (ns, rs1 @ r # rs2) # after) now
     = PurgeOldTags_part000 x d kd kc pc (before @ [(ns, rs1)]) now
       @ analyzeRepo_part000 x ns r (pc @ [catchAll_part000 kd kc]) now d
           (if d then ''skipped'' else [])
       # PurgeOldTags_part000 x d kd kc pc ((ns, rs2) # after) now"
  by (simp add: PurgeOldTags_part000_def Let_def)

text \<open>
  C8. When a regular expression fails to compile while a repository is processed (the
  search for the repository rule ends with an error, or the rule is found and the regex
  of a tag rule that some tag of the repository reaches does not compile),
  \<^verbatim>\<open>analyzeRepo\<close> returns with empty keep and purge lists and without a \<^verbatim>\<open>DeleteTag\<close> call,
  and its log has the warning. The run goes on: the outcomes of a catalog are those of
  the repositories before, the outcome of this repository, and those of the repositories
  after it.
\<close>

theorem bad_regex_aborts_repository:
  "((\<exists>e. resolveRepoRule (regexp_Compile x) (repoFullName ns r) cfgs = Inl e)
      \<or> (\<exists>c. resolveRepoRule (regexp_Compile x) (repoFullName ns r) cfgs = Inr (Some c)
             \<and> client_Tags x (repoFullName ns r) \<noteq> []
             \<and> regexp_Compile x (TagsRegex c) = None)
     \<longrightarrow> keepList (analyzeRepo x ns r cfgs now d t) = []
         \<and> purgeList (analyzeRepo x ns r cfgs now d t) = []
         \<and> deleteTagCalls (analyzeRepo x ns r cfgs now d t) = []
         \<and> (\<exists>ev\<in>set (logLines (analyzeRepo x ns r cfgs now d t)).
               ev = SkipRepoRegex (repoFullName ns r)
               \<or> (\<exists>tag. ev = SkipTagRegex (repoFullName ns r) tag)))
   \<and> ((\<exists>e. resolveRepoRule_part000 (regexp_Compile x) (repoFullName ns r) cfgs0 = Inl e)
      \<or> (\<exists>c. resolveRepoRule_part000 (regexp_Compile x) (repoFullName ns r) cfgs0 = Inr (Some c)
             \<and> (\<exists>tag\<in>set (client_Tags x (repoFullName ns r)).
                   \<exists>e. resolveTagRule (regexp_Compile x) tag (Tags_part000 c) = Inl e))
     \<longrightarrow> keepList (analyzeRepo_part000 x ns r cfgs0 now d t) = []
         \<and> purgeList (analyzeRepo_part000 x ns r cfgs0 now d t) = []
         \<and> deleteTagCalls (analyzeRepo_part000 x ns r cfgs0 now d t) = []
         \<and> (\<exists>ev\<in>set (logLines (analyzeRepo_part000 x ns r cfgs0 now d t)).
               ev = SkipRepoRegex (repoFullName ns r)
               \<or> (\<exists>tag. ev = SkipTagRegex (repoFullName ns r) tag)))
   \<and> PurgeOldTags x d kd kc pc (before @ (ns, rs1 @ r # rs2) # after) now
       = PurgeOldTags x d kd kc pc (before @ [(ns, rs1)]) now
         @ analyzeRepo x ns r (pc @ [catchAll kd kc]) now d (if d then ''skipped'' else [])
         # PurgeOldTags x d kd kc pc ((ns, rs2) # after) now
   \<and> PurgeOldTags_part000 x d kd kc pc0 (before @ (ns, rs1 @ r # rs2) # after) now
       = PurgeOldTags_part000 x d kd kc pc0 (before @ [(ns, rs1)]) now
         @ analyzeRepo_part000 x ns r (pc0 @ [catchAll_part000 kd kc]) now d
             (if d then ''skipped'' else [])
         # PurgeOldTags_part000 x d kd kc pc0 ((ns, rs2) # after) now"
proof (intro conjI impI)
  let ?repo = "repoFullName ns r"
  assume h: "(\<exists>e. resolveRepoRule (regexp_Compile x) ?repo cfgs = Inl e)
      \<or> (\<exists>c. resolveRepoRule (regexp_Compile x) ?repo cfgs = Inr (Some c)
             \<and> client_Tags x ?repo \<noteq> [] \<and> regexp_Compile x (TagsRegex c) = None)"
  have "(\<exists>tag. analyzeRepo x ns r cfgs now d t = returnEarly [SkipTagRegex ?repo tag])
        \<or> analyzeRepo x ns r cfgs now d t = returnEarly [SkipRepoRegex ?repo]"
  proof (rule disjE [OF h])
    assume "\<exists>e. resolveRepoRule (regexp_Compile x) ?repo cfgs = Inl e"
    then show ?thesis by (auto simp: analyzeRepo_def)
  next
    assume "\<exists>c. resolveRepoRule (regexp_Compile x) ?repo cfgs = Inr (Some c)
             \<and> client_Tags x ?repo \<noteq> [] \<and> regexp_Compile x (TagsRegex c) = None"
    then obtain c where c: "resolveRepoRule (regexp_Compile x) ?repo cfgs = Inr (Some c)"
      "client_Tags x ?repo \<noteq> []" "regexp_Compile x (TagsRegex c) = None" by blast
    obtain tag rest where tr: "client_Tags x ?repo = tag # rest"
      using c(2) by (cases "client_Tags x ?repo") auto
    have "analyzeRepo x ns r cfgs now d t = returnEarly [SkipTagRegex ?repo tag]"
      by (simp add: analyzeRepo_def c(1) c(3) tr)
    then show ?thesis by blast
  qed
  then show "keepList (analyzeRepo x ns r cfgs now d t) = []"
    "purgeList (analyzeRepo x ns r cfgs now d t) = []"
    "deleteTagCalls (analyzeRepo x ns r cfgs now d t) = []"
    "\<exists>ev\<in>set (logLines (analyzeRepo x ns r cfgs now d t)).
       ev = SkipRepoRegex ?repo \<or> (\<exists>tag. ev = SkipTagRegex ?repo tag)"
    by (auto simp: returnEarly_def)
next
  let ?repo = "repoFullName ns r"
  assume h: "(\<exists>e. resolveRepoRule_part000 (regexp_Compile x) ?repo cfgs0 = Inl e)
      \<or> (\<exists>c. resolveRepoRule_part000 (regexp_Compile x) ?repo cfgs0 = Inr (Some c)
             \<and> (\<exists>tag\<in>set (client_Tags x ?repo).
                   \<exists>e. resolveTagRule (regexp_Compile x) tag (Tags_part000 c) = Inl e))"
  have "(\<exists>lg tag. analyzeRepo_part000 x ns r cfgs0 now d t
                    = returnEarly (lg @ [SkipTagRegex ?repo tag]))
        \<or> analyzeRepo_part000 x ns r cfgs0 now d t = returnEarly [SkipRepoRegex ?repo]"
  proof (rule disjE [OF h])
    assume "\<exists>e. resolveRepoRule_part000 (regexp_Compile x) ?repo cfgs0 = Inl e"
    then show ?thesis by (auto simp: analyzeRepo_part000_def)
  next
    assume "\<exists>c. resolveRepoRule_part000 (regexp_Compile x) ?repo cfgs0 = Inr (Some c)
             \<and> (\<exists>tag\<in>set (client_Tags x ?repo).
                   \<exists>e. resolveTagRule (regexp_Compile x) tag (Tags_part000 c) = Inl e)"
    then obtain c where c: "resolveRepoRule_part000 (regexp_Compile x) ?repo cfgs0 = Inr (Some c)"
      "\<exists>tag\<in>set (client_Tags x ?repo).
         \<exists>e. resolveTagRule (regexp_Compile x) tag (Tags_part000 c) = Inl e" by blast
    have ne: "client_Tags x ?repo \<noteq> []" using c(2) by auto
    obtain lg tag where
      "scanTags_part000 x ?repo c (client_Tags x ?repo) ([], []) = Inl (lg @ [SkipTagRegex ?repo tag])"
      using scanTags_part000_bad_regex [OF c(2)] by blast
    then have "analyzeRepo_part000 x ns r cfgs0 now d t
                 = returnEarly (lg @ [SkipTagRegex ?repo tag])"
      using ne by (simp add: analyzeRepo_part000_def c(1))
    then show ?thesis by blast
  qed
  then show "keepList (analyzeRepo_part000 x ns r cfgs0 now d t) = []"
    "purgeList (analyzeRepo_part000 x ns r cfgs0 now d t) = []"
    "deleteTagCalls (analyzeRepo_part000 x ns r cfgs0 now d t) = []"
    "\<exists>ev\<in>set (logLines (analyzeRepo_part000 x ns r cfgs0 now d t)).
       ev = SkipRepoRegex ?repo \<or> (\<exists>tag. ev = SkipTagRegex ?repo tag)"
    by (auto simp: returnEarly_def)
next
  show "PurgeOldTags x d kd kc pc (before @ (ns, rs1 @ r # rs2) # after) now
       = PurgeOldTags x d kd kc pc (before @ [(ns, rs1)]) now
         @ analyzeRepo x ns r (pc @ [catchAll kd kc]) now d (if d then ''skipped'' else [])
         # PurgeOldTags x d kd kc pc ((ns, rs2) # after) now"
    by (rule PurgeOldTags_continues)
  show "PurgeOldTags_part000 x d kd kc pc0 (before @ (ns, rs1 @ r # rs2) # after) now
       = PurgeOldTags_part000 x d kd kc pc0 (before @ [(ns, rs1)]) now
         @ analyzeRepo_part000 x ns r (pc0 @ [catchAll_part000 kd kc]) now d
             (if d then ''skipped'' else [])
         # PurgeOldTags_part000 x d kd kc pc0 ((ns, rs2) # after) now"
    by (rule PurgeOldTags_part000_continues)
qed

theorem bad_regex_aborts_repository_witness:
  "resolveRepoRule (regexp_Compile sampleExtern) (repoFullName ''library'' ''app'') [brokenRepoRule]
     = Inl (RegexCompileError ''['')
   \<and> keepList (analyzeRepo sampleExtern ''library'' ''app'' [brokenRepoRule] scenarioNow False []) = []
   \<and> purgeList (analyzeRepo sampleExtern ''library'' ''app'' [brokenRepoRule] scenarioNow False [])
       = []
   \<and> deleteTagCalls
        (analyzeRepo sampleExtern ''library'' ''app'' [brokenRepoRule] scenarioNow False []) = []
   \<and> resolveRepoRule_part000 (regexp_Compile sampleExtern) (repoFullName ''library'' ''app'')
        [brokenTagRule_part000] = Inr (Some brokenTagRule_part000)
   \<and> ''b'' \<in> set (client_Tags sampleExtern (repoFullName ''library'' ''app''))
   \<and> resolveTagRule (regexp_Compile sampleExtern) ''b'' (Tags_part000 brokenTagRule_part000)
       = Inl (RegexCompileError ''['')
   \<and> keepList (analyzeRepo_part000 sampleExtern ''library'' ''app'' [brokenTagRule_part000]
        scenarioNow False []) = []
   \<and> purgeList (analyzeRepo_part000 sampleExtern ''library'' ''app'' [brokenTagRule_part000]
        scenarioNow False []) = []
   \<and> deleteTagCalls (analyzeRepo_part000 sampleExtern ''library'' ''app'' [brokenTagRule_part000]
        scenarioNow False []) = []"
proof -
  have n: "repoFullName ''library'' ''app'' = ''app''"
    by (simp add: repoFullName_def)
  have a: "resolveRepoRule (regexp_Compile sampleExtern) (repoFullName ''library'' ''app'')
             [brokenRepoRule] = Inl (RegexCompileError ''['')"
    by (simp add: n sample_simps sampleCompile_def brokenRepoRule_def)
  have b: "resolveRepoRule_part000 (regexp_Compile sampleExtern)
             (repoFullName ''library'' ''app'') [brokenTagRule_part000]
           = Inr (Some brokenTagRule_part000)"
    by (simp add: n sample_simps sampleCompile_def brokenTagRule_part000_def)
  have c: "''b'' \<in> set (client_Tags sampleExtern (repoFullName ''library'' ''app''))"
    by (simp add: n sample_simps)
  have e: "resolveTagRule (regexp_Compile sampleExtern) ''b'' (Tags_part000 brokenTagRule_part000)
             = Inl (RegexCompileError ''['')"
    by (simp add: sample_simps sampleCompile_def brokenTagRule_part000_def)
  show ?thesis
    using bad_regex_aborts_repository [of sampleExtern "''library''" "''app''" "[brokenRepoRule]"
        scenarioNow False "[]" "[brokenTagRule_part000]"] a b c e
    by blast
qed

subsection \<open>The catch-all rule\<close>

lemma resolveRepoRule_catchAll:
  assumes "compile ''.*'' = Some m" "\<forall>s. m s"
    and "\<forall>c\<in>set cfgs. compile (RepoRegex c) \<noteq> None"
  shows "\<exists>c. resolveRepoRule compile repo (cfgs @ [catchAll kd kc]) = Inr (Some c)"
  using assms(3)
proof (induction cfgs)
  case Nil
  then show ?case using assms(1,2) by (simp add: catchAll_def)
next
  case (Cons c cfgs)
  then show ?case by (cases "compile (RepoRegex c)") auto
qed

lemma resolveRepoRule_part000_catchAll:
  assumes "compile ''.*'' = Some m" "\<forall>s. m s"
    and "\<forall>c\<in>set cfgs. compile (RepoRegex_part000 c) \<noteq> None"
  shows "\<exists>c. resolveRepoRule_part000 compile repo (cfgs @ [catchAll_part000 kd kc])
               = Inr (Some c)"
  using assms(3)
proof (induction cfgs)
  case Nil
  then show ?case using assms(1,2) by (simp add: catchAll_part000_def)
next
  case (Cons c cfgs)
  then show ?case by (cases "compile (RepoRegex_part000 c)") auto
qed

lemma scanTags_no_NoMatch:
  "scanTags x repo c tags (acc, lg) = Inl lg' \<Longrightarrow> NoMatchForRepo q \<notin> set lg
     \<Longrightarrow> NoMatchForRepo q \<notin> set lg'"
  "scanTags x repo c tags (acc, lg) = Inr (acc', lg') \<Longrightarrow> NoMatchForRepo q \<notin> set lg
     \<Longrightarrow> NoMatchForRepo q \<notin> set lg'"
  by (induction tags arbitrary: acc lg) (auto split: option.splits if_splits)

lemma scanTags_part000_no_NoMatch:
  "scanTags_part000 x repo c tags (acc, lg) = Inl lg' \<Longrightarrow> NoMatchForRepo q \<notin> set lg
     \<Longrightarrow> NoMatchForRepo q \<notin> set lg'"
  "scanTags_part000 x repo c tags (acc, lg) = Inr (acc', lg') \<Longrightarrow> NoMatchForRepo q \<notin> set lg
     \<Longrightarrow> NoMatchForRepo q \<notin> set lg'"
  by (induction tags arbitrary: acc lg) (auto split: option.splits if_splits sum.splits)

lemma analyzeRepo_no_NoMatch:
  assumes "resolveRepoRule (regexp_Compile x) (repoFullName ns r) cfgs = Inr (Some c)"
  shows "NoMatchForRepo q \<notin> set (logLines (analyzeRepo x ns r cfgs now d t))"
proof (cases "scanTags x (repoFullName ns r) c (client_Tags x (repoFullName ns r)) ([], [])")
  case (Inl lg)
  then show ?thesis
    using scanTags_no_NoMatch(1) [OF Inl, of q] assms
    by (simp add: analyzeRepo_def Let_def returnEarly_def)
next
  case (Inr p)
  obtain acc lg where p: "p = (acc, lg)" by (cases p)
  show ?thesis
    using scanTags_no_NoMatch(2) [OF Inr [unfolded p], of q] assms Inr p
    by (auto simp: analyzeRepo_def Let_def returnEarly_def purgeLog_def)
qed

lemma analyzeRepo_part000_no_NoMatch:
  assumes "resolveRepoRule_part000 (regexp_Compile x) (repoFullName ns r) cfgs = Inr (Some c)"
  shows "NoMatchForRepo q \<notin> set (logLines (analyzeRepo_part000 x ns r cfgs now d t))"
proof (cases "scanTags_part000 x (repoFullName ns r) c (client_Tags x (repoFullName ns r)) ([], [])")
  case (Inl lg)
  then show ?thesis
    using scanTags_part000_no_NoMatch(1) [OF Inl, of q] assms
    by (simp add: analyzeRepo_part000_def Let_def returnEarly_def)
next
  case (Inr p)
  obtain acc lg where p: "p = (acc, lg)" by (cases p)
  show ?thesis
    using scanTags_part000_no_NoMatch(2) [OF Inr [unfolded p], of q] assms Inr p
    by (auto simp: analyzeRepo_part000_def Let_def returnEarly_def purgeLog_part000_def
        split: if_splits)
qed

text \<open>
  C9. If \<^verbatim>\<open>.*\<close> compiles to a regex that matches every string, and every configured
  repository regex compiles, then the search over the configured rules followed by the
  catch-all rule finds a rule for every repository name, and no repository of a run logs
  "No match found for repo".
\<close>

theorem catch_all_always_resolves:
  "(\<exists>m. regexp_Compile x ''.*'' = Some m \<and> (\<forall>s. m s)) \<longrightarrow>
     ((\<forall>c\<in>set pc. regexp_Compile x (RepoRegex c) \<noteq> None) \<longrightarrow>
        (\<exists>c. resolveRepoRule (regexp_Compile x) (repoFullName ns r) (pc @ [catchAll kd kc])
               = Inr (Some c))
        \<and> (\<forall>out\<in>set (PurgeOldTags x d kd kc pc cat now). \<forall>q. NoMatchForRepo q \<notin> set (logLines out)))
     \<and> ((\<forall>c\<in>set pc0. regexp_Compile x (RepoRegex_part000 c) \<noteq> None) \<longrightarrow>
        (\<exists>c. resolveRepoRule_part000 (regexp_Compile x) (repoFullName ns r)
                (pc0 @ [catchAll_part000 kd kc]) = Inr (Some c))
        \<and> (\<forall>out\<in>set (PurgeOldTags_part000 x d kd kc pc0 cat now).
              \<forall>q. NoMatchForRepo q \<notin> set (logLines out)))"
proof (intro impI conjI)
  assume a: "\<exists>m. regexp_Compile x ''.*'' = Some m \<and> (\<forall>s. m s)"
  then obtain m where m: "regexp_Compile x ''.*'' = Some m" "\<forall>s. m s" by blast
  {
    assume c: "\<forall>c\<in>set pc. regexp_Compile x (RepoRegex c) \<noteq> None"
    show "\<exists>c. resolveRepoRule (regexp_Compile x) (repoFullName ns r) (pc @ [catchAll kd kc])
               = Inr (Some c)"
      by (rule resolveRepoRule_catchAll [OF m c])
    show "\<forall>out\<in>set (PurgeOldTags x d kd kc pc cat now). \<forall>q. NoMatchForRepo q \<notin> set (logLines out)"
    proof (intro ballI allI)
      fix out q
      assume "out \<in> set (PurgeOldTags x d kd kc pc cat now)"
      then obtain ns' r' where o: "out = analyzeRepo x ns' r' (pc @ [catchAll kd kc]) now d
                                       (if d then ''skipped'' else [])"
        by (auto simp: PurgeOldTags_def Let_def)
      obtain c' where "resolveRepoRule (regexp_Compile x) (repoFullName ns' r')
                         (pc @ [catchAll kd kc]) = Inr (Some c')"
        using resolveRepoRule_catchAll [OF m c] by blast
      then show "NoMatchForRepo q \<notin> set (logLines out)"
        unfolding o by (rule analyzeRepo_no_NoMatch)
    qed
  }
  {
    assume c: "\<forall>c\<in>set pc0. regexp_Compile x (RepoRegex_part000 c) \<noteq> None"
    show "\<exists>c. resolveRepoRule_part000 (regexp_Compile x) (repoFullName ns r)
                (pc0 @ [catchAll_part000 kd kc]) = Inr (Some c)"
      by (rule resolveRepoRule_part000_catchAll [OF m c])
    show "\<forall>out\<in>set (PurgeOldTags_part000 x d kd kc pc0 cat now).
            \<forall>q. NoMatchForRepo q \<notin> set (logLines out)"
    proof (intro ballI allI)
      fix out q
      assume "out \<in> set (PurgeOldTags_part000 x d kd kc pc0 cat now)"
      then obtain ns' r' where o: "out = analyzeRepo_part000 x ns' r'
          (pc0 @ [catchAll_part000 kd kc]) now d (if d then ''skipped'' else [])"
        by (auto simp: PurgeOldTags_part000_def Let_def)
      obtain c' where "resolveRepoRule_part000 (regexp_Compile x) (repoFullName ns' r')
                         (pc0 @ [catchAll_part000 kd kc]) = Inr (Some c')"
        using resolveRepoRule_part000_catchAll [OF m c] by blast
      then show "NoMatchForRepo q \<notin> set (logLines out)"
        unfolding o by (rule analyzeRepo_part000_no_NoMatch)
    qed
  }
qed

theorem catch_all_always_resolves_witness:
  "regexp_Compile sampleExtern ''.*'' = Some (\<lambda>s. True)
   \<and> regexp_Compile sampleExtern (RepoRegex otherRepoRule) = Some (containsAt ''web'')
   \<and> regexp_Compile sampleExtern (RepoRegex_part000 otherRepoRule_part000)
       = Some (containsAt ''web'')
   \<and> (\<exists>c. resolveRepoRule (regexp_Compile sampleExtern) (repoFullName ''library'' ''app'')
             ([otherRepoRule] @ [catchAll 30 1]) = Inr (Some c))
   \<and> (\<exists>c. resolveRepoRule_part000 (regexp_Compile sampleExtern)
             (repoFullName ''library'' ''app'')
             ([otherRepoRule_part000] @ [catchAll_part000 30 1]) = Inr (Some c))"
proof -
  have a: "regexp_Compile sampleExtern ''.*'' = Some (\<lambda>s. True)"
    by (simp add: sample_simps sampleCompile_simps)
  have b: "regexp_Compile sampleExtern (RepoRegex otherRepoRule) = Some (containsAt ''web'')"
    by (simp add: sample_simps sampleCompile_def otherRepoRule_def)
  have c: "regexp_Compile sampleExtern (RepoRegex_part000 otherRepoRule_part000)
             = Some (containsAt ''web'')"
    by (simp add: sample_simps sampleCompile_def otherRepoRule_part000_def)
  have b': "\<forall>c\<in>set [otherRepoRule]. regexp_Compile sampleExtern (RepoRegex c) \<noteq> None"
    using b by simp
  have c': "\<forall>c\<in>set [otherRepoRule_part000].
              regexp_Compile sampleExtern (RepoRegex_part000 c) \<noteq> None"
    using c by simp
  show ?thesis
    using catch_all_always_resolves [of sampleExtern "[otherRepoRule]" "''library''" "''app''"
        30 1 False "[]" scenarioNow "[otherRepoRule_part000]"] a b c b' c'
    by blast
qed

subsection \<open>Groups no larger than the floor\<close>

text \<open>
  C10. A group with at most keepCount tags is kept whole: the purge list is empty and the
  keep list holds the names of all its tags, whatever keepDays and the ages are.
\<close>

theorem small_group_all_kept:
  "int (length g) \<le> keepCount \<longrightarrow>
     (sortsNewestFirst srt g \<longrightarrow>
        purge (partitionTags srt now keepDays keepCount g) = []
        \<and> mset (keep (partitionTags srt now keepDays keepCount g)) = mset (map name g))
     \<and> purge (partitionTags_part000 srt now keepDays keepCount g) = []
     \<and> mset (keep (partitionTags_part000 srt now keepDays keepCount g)) = mset (map name g)"
proof (intro impI conjI)
  assume s: "int (length g) \<le> keepCount"
  show "purge (partitionTags_part000 srt now keepDays keepCount g) = []"
    using core_small(1) [OF s] by (simp add: partitionTags_part000_lists)
  show "mset (keep (partitionTags_part000 srt now keepDays keepCount g)) = mset (map name g)"
    using core_small(2) [OF s] by (simp add: partitionTags_part000_lists)
next
  assume s: "int (length g) \<le> keepCount" and n: "sortsNewestFirst srt g"
  have l: "int (length (srt g)) \<le> keepCount"
    using s sortsNewestFirst_length [OF n] by simp
  have m: "mset (map name (srt g)) = mset (map name g)"
    using n by (metis sortsNewestFirst_def mset_map)
  show "purge (partitionTags srt now keepDays keepCount g) = []"
    using core_small(1) [OF l] by (simp add: partitionTags_lists)
  show "mset (keep (partitionTags srt now keepDays keepCount g)) = mset (map name g)"
    using core_small(2) [OF l, of now keepDays] m by (simp add: partitionTags_lists)
qed

theorem small_group_all_kept_witness:
  "int (length shuffledGroup) \<le> 5 \<and> sortsNewestFirst insertionSort shuffledGroup
   \<and> purge (partitionTags insertionSort scenarioNow 30 5 shuffledGroup) = []
   \<and> purge (partitionTags_part000 insertionSort scenarioNow 30 5 shuffledGroup) = []"
proof -
  have l: "int (length shuffledGroup) \<le> 5"
    by (simp add: shuffledGroup_def)
  show ?thesis
    using small_group_all_kept [of shuffledGroup 5 insertionSort scenarioNow 30]
      sortsNewestFirst_shuffled l by simp
qed

end
